theory Spec2Isabelle
  imports Main
begin

section \<open>Data model\<close>

text \<open>
  The embedding follows the current revision of \<^verbatim>\<open>tide-whisperer.go\<close> (the one with
  \<^verbatim>\<open>store.GetParams\<close>, restricted tokens and \<^verbatim>\<open>processResults\<close>).  A non-nil Go
  \<^verbatim>\<open>error\<close> is a value carrying its message; a call returning \<^verbatim>\<open>(T, error)\<close> whose
  value is only read when the error is nil is a sum with \<open>Inl\<close> for the error.
\<close>

datatype error = Error string

fun Error_msg :: "error \<Rightarrow> string" where
  "Error_msg (Error m) = m"

text \<open>
  \<^verbatim>\<open>detailedError\<close>: the field \<^verbatim>\<open>Id\<close> is written \<open>Id'\<close> (\<open>Id\<close> is the identity
  relation of HOL). \<^verbatim>\<open>InternalMessage\<close> carries the tag \<^verbatim>\<open>json:"-"\<close>.
\<close>

record detailedError =
  Status :: int
  Id' :: string
  Code :: string
  Message :: string
  InternalMessage :: string

definition http_StatusOK :: int where
  "http_StatusOK = 200"

definition http_StatusForbidden :: int where
  "http_StatusForbidden = 403"

definition http_StatusInternalServerError :: int where
  "http_StatusInternalServerError = 500"

text \<open>The package-level error variables. They are Go variables, hence part of the state.\<close>

record catalog =
  error_status_check :: detailedError
  error_no_view_permisson :: detailedError
  error_no_permissons :: detailedError
  error_running_query :: detailedError
  error_loading_events :: detailedError
  error_invalid_parameters :: detailedError

definition mkError :: "int \<Rightarrow> string \<Rightarrow> string \<Rightarrow> detailedError" where
  "mkError s c m = \<lparr>Status = s, Id' = '''', Code = c, Message = m, InternalMessage = ''''\<rparr>"

definition initial_catalog :: catalog where
  "initial_catalog = \<lparr>
     error_status_check = mkError http_StatusInternalServerError ''data_status_check''
        ''checking of the status endpoint showed an error'',
     error_no_view_permisson = mkError http_StatusForbidden ''data_cant_view''
        ''user is not authorized to view data'',
     error_no_permissons = mkError http_StatusInternalServerError ''data_perms_error''
        ''error finding permissons for user'',
     error_running_query = mkError http_StatusInternalServerError ''data_store_error''
        ''internal server error'',
     error_loading_events = mkError http_StatusInternalServerError ''data_marshal_error''
        ''internal server error'',
     error_invalid_parameters = mkError http_StatusInternalServerError ''invalid_parameters''
        ''one or more parameters are invalid''\<rparr>"

definition MedtronicLoopBoundaryDate :: string where
  "MedtronicLoopBoundaryDate = ''2017-09-01''"

text \<open>
  \<^verbatim>\<open>func (d detailedError) setInternalMessage(internal error) detailedError\<close>: a value
  receiver, so the assignment is to the callee's copy, which is returned.
\<close>

definition setInternalMessage :: "detailedError \<Rightarrow> error \<Rightarrow> detailedError" where
  "setInternalMessage d internal = d\<lparr>InternalMessage := Error_msg internal\<rparr>"

text \<open>\<^verbatim>\<open>shoreline.TokenData\<close>, of the client library.\<close>

record TokenData =
  UserID :: string
  IsServer :: bool

text \<open>
  Modelled from the spec: \<^verbatim>\<open>auth.RestrictedToken\<close>, declared in the auth package. The
  data model gives it the bound user (the handler reads \<^verbatim>\<open>restrictedToken.UserID\<close>; the
  field is written \<open>rt_UserID\<close>, \<open>UserID\<close> being the field of \<open>TokenData\<close>) and a validity
  predicate over the current request, which is the collaborator \<open>Authenticates\<close> below.
\<close>

record RestrictedToken =
  rt_UserID :: string

text \<open>
  Modelled from the spec: \<^verbatim>\<open>store.Params\<close>, declared in the store package; it is the
  Filter of the data model. The handler reads \<^verbatim>\<open>UserId\<close>, \<^verbatim>\<open>Dexcom\<close> and \<^verbatim>\<open>Medtronic\<close>
  and assigns \<^verbatim>\<open>Carelink\<close>, \<^verbatim>\<open>DexcomDataSource\<close>, \<^verbatim>\<open>Medtronic\<close>, \<^verbatim>\<open>MedtronicDate\<close> (a
  string constant) and \<^verbatim>\<open>MedtronicUploadIds\<close>.
\<close>

record Params =
  UserId :: string
  Types :: "string list"
  SubTypes :: "string list"
  StartDate :: "int option"
  EndDate :: "int option"
  Carelink :: bool
  Dexcom :: bool
  DexcomDataSource :: "string option"
  Medtronic :: bool
  MedtronicDate :: string
  MedtronicUploadIds :: "string list"

text \<open>
  \<^verbatim>\<open>url.Values\<close> and \<^verbatim>\<open>http.Header\<close> are maps from a name to the list of its values.
  The router stores the path segment under the key \<^verbatim>\<open>:userID\<close> of the query.
\<close>

type_synonym Values = "(string \<times> string list) list"

record request =
  Header :: "Values"
  Query :: "Values"

definition Get :: "Values \<Rightarrow> string \<Rightarrow> string" where
  "Get vs k = (case map_of vs k of None \<Rightarrow> '''' | Some [] \<Rightarrow> '''' | Some (v # _) \<Rightarrow> v)"

text \<open>
  \<^verbatim>\<open>clients.Permissions\<close>: \<open>map_of perms k = None\<close> stands for \<^verbatim>\<open>perms[k] == nil\<close>
  (the key is absent or bound to a nil permission).
\<close>

type_synonym Permission = "(string \<times> string) list"
type_synonym Permissions = "(string \<times> Permission) list"

text \<open>
  \<^verbatim>\<open>deviceData\<close> is \<^verbatim>\<open>map[string]interface{}\<close>: an association list from keys to values
  of an arbitrary type; \<^verbatim>\<open>len\<close> counts the distinct keys.
\<close>

type_synonym 'v deviceData = "(string \<times> 'v) list"

definition len :: "'v deviceData \<Rightarrow> nat" where
  "len d = length (remdups (map fst d))"

text \<open>
  Modelled from the spec: \<^verbatim>\<open>store.StorageIterator\<close>, declared in the store package; it is
  the forward-only, non-restartable result cursor of the data model. It is given by what
  the successive calls of \<^verbatim>\<open>Next\<close> do: each either stores the next document in
  \<^verbatim>\<open>results\<close> and returns true, or panics; once the list is used up \<^verbatim>\<open>Next\<close> returns
  false.
\<close>

datatype 'v fetch = Doc "'v deviceData" | Panics

type_synonym 'v iterator = "'v fetch list"

section \<open>The response writer\<close>

text \<open>
  \<^verbatim>\<open>http.ResponseWriter\<close>: \<open>statusCode = None\<close> until the header is written. The first
  \<^verbatim>\<open>Write\<close> writes the header with status 200 when \<^verbatim>\<open>WriteHeader\<close> was not called; a
  second \<^verbatim>\<open>WriteHeader\<close> and a change of the header map after that have no effect.
\<close>

record response =
  headers :: "(string \<times> string) list"
  statusCode :: "int option"
  body :: string

definition Header_Add :: "string \<Rightarrow> string \<Rightarrow> response \<Rightarrow> response" where
  "Header_Add k v r = (if statusCode r = None then r\<lparr>headers := headers r @ [(k, v)]\<rparr> else r)"

definition WriteHeader :: "int \<Rightarrow> response \<Rightarrow> response" where
  "WriteHeader c r = (if statusCode r = None then r\<lparr>statusCode := Some c\<rparr> else r)"

definition Write :: "string \<Rightarrow> response \<Rightarrow> response" where
  "Write b r = (let r' = WriteHeader http_StatusOK r in r'\<lparr>body := body r' @ b\<rparr>)"

section \<open>What a request does besides answering\<close>

text \<open>The log lines, one constructor per \<^verbatim>\<open>log.Println\<close>/\<^verbatim>\<open>log.Printf\<close> of the file.\<close>

datatype logline =
    LogParseError error
  | LogUserInGroupError error
  | LogPerms Permissions
  | LogJsonError string string int string string
  | LogMedtronicDirectError error
  | LogDexcomError error
  | LogMedtronicLoopError error
  | LogUploadIdsError error
  | LogProcessingStarted int
  | LogMarshalFailed error
  | LogProcessingFinished int nat

text \<open>The calls to the collaborators (parameter parsing, identity, sharing, store, cursor).\<close>

datatype call =
    Call_GetParams
  | Call_CheckToken string
  | Call_GetRestrictedToken string
  | Call_Authenticates RestrictedToken
  | Call_UserInGroup string string
  | Call_Ping
  | Call_HasMedtronicDirectData string
  | Call_GetDexcomDataSource string
  | Call_HasMedtronicLoopDataAfter string string
  | Call_GetLoopableMedtronicDirectUploadIdsAfter string string
  | Call_GetDeviceData Params
  | Call_Next
  | Call_Close

datatype event = Call call | Log logline

datatype outcome = Returned | Panicked

text \<open>
  The collaborators, as the handler sees them during one request. \<open>uuid_NewV4\<close> and
  \<open>time_Now\<close> give the value of the n-th draw and of the n-th reading of the clock
  (in nanoseconds); \<open>json_Marshal\<close>, \<open>json_int\<close> and \<open>json_string\<close> are
  \<^verbatim>\<open>encoding/json\<close> on a document, an integer and a string.
\<close>

record 'v env =
  GetParams :: "Values \<Rightarrow> error + Params"
  CheckToken :: "string \<Rightarrow> TokenData option"
  GetRestrictedToken :: "string \<Rightarrow> RestrictedToken option \<times> error option"
  Authenticates :: "RestrictedToken \<Rightarrow> request \<Rightarrow> bool"
  UserInGroup :: "string \<Rightarrow> string \<Rightarrow> error + Permissions"
  Ping :: "error option"
  HasMedtronicDirectData :: "string \<Rightarrow> error + bool"
  GetDexcomDataSource :: "string \<Rightarrow> error + string option"
  HasMedtronicLoopDataAfter :: "string \<Rightarrow> string \<Rightarrow> error + bool"
  GetLoopableMedtronicDirectUploadIdsAfter :: "string \<Rightarrow> string \<Rightarrow> error + string list"
  GetDeviceData :: "Params \<Rightarrow> 'v iterator"
  json_Marshal :: "'v deviceData \<Rightarrow> error + string"
  json_int :: "int \<Rightarrow> string"
  json_string :: "string \<Rightarrow> string"
  uuid_NewV4 :: "nat \<Rightarrow> string"
  time_Now :: "nat \<Rightarrow> int"

text \<open>
  The state that outlives a request: the error variables, and how many identifiers and
  clock readings have been taken.
\<close>

record world =
  errs :: catalog
  uuids :: nat
  ticks :: nat

definition now :: "'v env \<Rightarrow> world \<Rightarrow> int \<times> world" where
  "now E w = (time_Now E (ticks w), w\<lparr>ticks := Suc (ticks w)\<rparr>)"

definition newV4 :: "'v env \<Rightarrow> world \<Rightarrow> string \<times> world" where
  "newV4 E w = (uuid_NewV4 E (uuids w), w\<lparr>uuids := Suc (uuids w)\<rparr>)"

section \<open>The closures of main\<close>

text \<open>
  \<^verbatim>\<open>json.Marshal\<close> of a \<^verbatim>\<open>detailedError\<close>: the fields in declaration order under
  their tags; the field tagged \<^verbatim>\<open>"-"\<close> is left out.
\<close>

definition marshal_detailedError :: "'v env \<Rightarrow> detailedError \<Rightarrow> string" where
  "marshal_detailedError E e =
     ''{'' @ json_string E ''status'' @ '':'' @ json_int E (Status e) @
     '','' @ json_string E ''id'' @ '':'' @ json_string E (Id' e) @
     '','' @ json_string E ''code'' @ '':'' @ json_string E (Code e) @
     '','' @ json_string E ''message'' @ '':'' @ json_string E (Message e) @ ''}''"

definition userCanViewData :: "'v env \<Rightarrow> string \<Rightarrow> string \<Rightarrow> bool \<times> event list" where
  "userCanViewData E authenticatedUserID targetUserID =
     (if authenticatedUserID = targetUserID then (True, [])
      else case UserInGroup E authenticatedUserID targetUserID of
             Inl err \<Rightarrow>
               (False, [Call (Call_UserInGroup authenticatedUserID targetUserID),
                        Log (LogUserInGroupError err)])
           | Inr perms \<Rightarrow>
               (\<not> (map_of perms ''root'' = None \<and> map_of perms ''view'' = None),
                [Call (Call_UserInGroup authenticatedUserID targetUserID), Log (LogPerms perms)]))"

text \<open>
  \<^verbatim>\<open>jsonError\<close> receives \<^verbatim>\<open>err\<close> by value: the assignment to \<^verbatim>\<open>err.Id\<close> changes the
  parameter only.
\<close>

definition jsonError ::
  "'v env \<Rightarrow> response \<Rightarrow> detailedError \<Rightarrow> int \<Rightarrow> world \<Rightarrow> response \<times> event list \<times> world" where
  "jsonError E res err startedAt w =
     (let (u, w1) = newV4 E w;
          err1 = err\<lparr>Id' := u\<rparr>;
          (t, w2) = now E w1;
          line = LogJsonError (Id' err1) (Code err1) (t - startedAt) (Message err1)
                   (InternalMessage err1);
          jsonErr = marshal_detailedError E err1;
          res1 = Header_Add ''content-type'' ''application/json'' res;
          res2 = WriteHeader (Status err1) res1;
          res3 = Write jsonErr res2
      in (res3, [Log line], w2))"

text \<open>
  The loop of \<^verbatim>\<open>processResults\<close>, on what is left of the cursor, with \<^verbatim>\<open>writeCount\<close>
  and the response so far. A panic of \<^verbatim>\<open>Next\<close> leaves the loop and the function.
\<close>

fun drain ::
  "'v env \<Rightarrow> 'v iterator \<Rightarrow> nat \<Rightarrow> response \<Rightarrow> outcome \<times> nat \<times> response \<times> event list" where
  "drain E [] writeCount res = (Returned, writeCount, res, [Call Call_Next])"
| "drain E (Panics # rest) writeCount res = (Panicked, writeCount, res, [Call Call_Next])"
| "drain E (Doc results # rest) writeCount res =
     (if len results > 0 then
        (case json_Marshal E results of
           Inl err \<Rightarrow>
             (let (out, n, res', evs) = drain E rest writeCount res
              in (out, n, res', Call Call_Next # Log (LogMarshalFailed err) # evs))
         | Inr bytes \<Rightarrow>
             (let res1 = (if writeCount > 0 then Write '','' res else res);
                  res2 = Write [CHR 0x0A] res1;
                  res3 = Write bytes res2;
                  (out, n, res', evs) = drain E rest (writeCount + 1) res3
              in (out, n, res', Call Call_Next # evs)))
      else
        (let (out, n, res', evs) = drain E rest writeCount res
         in (out, n, res', Call Call_Next # evs)))"

definition processResults ::
  "'v env \<Rightarrow> response \<Rightarrow> 'v iterator \<Rightarrow> int \<Rightarrow> world
     \<Rightarrow> outcome \<times> response \<times> event list \<times> world" where
  "processResults E response iterator startTime w =
     (let (t1, w1) = now E w;
          res1 = Header_Add ''Content-Type'' ''application/json'' response;
          res2 = Write ''['' res1;
          (out, writeCount, res3, evs) = drain E iterator 0 res2
      in case out of
           Panicked \<Rightarrow> (Panicked, res3, Log (LogProcessingStarted (t1 - startTime)) # evs, w1)
         | Returned \<Rightarrow>
             (let res4 = (if writeCount > 0 then Write [CHR 0x0A] res3 else res3);
                  res5 = Write '']'' res4;
                  (t2, w2) = now E w1
              in (Returned, res5,
                  Log (LogProcessingStarted (t1 - startTime)) # evs @
                  [Log (LogProcessingFinished (t2 - startTime) writeCount)], w2)))"

section \<open>The handlers\<close>

text \<open>
  A handler's result: how it ended, the response, what it called and logged (in order),
  and the state it leaves.
\<close>

type_synonym result = "outcome \<times> response \<times> event list \<times> world"

definition after :: "event list \<Rightarrow> result \<Rightarrow> result" where
  "after evs r = (case r of (out, res, evs', w) \<Rightarrow> (out, res, evs @ evs', w))"

text \<open>\<^verbatim>\<open>jsonError(res, err, start); return\<close>\<close>

definition abort :: "'v env \<Rightarrow> response \<Rightarrow> detailedError \<Rightarrow> int \<Rightarrow> world \<Rightarrow> result" where
  "abort E res err start w =
     (case jsonError E res err start w of (res', evs, w') \<Rightarrow> (Returned, res', evs, w'))"

text \<open>
  \<^verbatim>\<open>GET /status\<close>
\<close>

definition handleStatus :: "'v env \<Rightarrow> response \<Rightarrow> world \<Rightarrow> result" where
  "handleStatus E res w =
     (let (start, w1) = now E w in
      case Ping E of
        Some err \<Rightarrow>
          after [Call Call_Ping]
            (abort E res (setInternalMessage (error_status_check (errs w1)) err) start w1)
      | None \<Rightarrow> (Returned, Write (''OK'' @ [CHR 0x0A]) res, [Call Call_Ping], w1))"

text \<open>
  \<^verbatim>\<open>GET /{userID}\<close>, from its last statements to its first. The last three: the query,
  the deferred \<^verbatim>\<open>iter.Close()\<close> (run when the handler returns and when it panics) and
  the streaming of the results.
\<close>

definition streamData :: "'v env \<Rightarrow> Params \<Rightarrow> response \<Rightarrow> world \<Rightarrow> result" where
  "streamData E queryParams res w =
     (let (started, w1) = now E w;
          iter = GetDeviceData E queryParams
      in case processResults E res iter started w1 of
           (out, res', evs, w2) \<Rightarrow>
             (out, res', Call (Call_GetDeviceData queryParams) # evs @ [Call Call_Close], w2))"

text \<open>\<^verbatim>\<open>if !queryParams.Medtronic { ... }\<close>\<close>

definition stepUploadIds ::
  "'v env \<Rightarrow> Params \<Rightarrow> response \<Rightarrow> int \<Rightarrow> world \<Rightarrow> result" where
  "stepUploadIds E queryParams res start w =
     (if \<not> Medtronic queryParams then
        after [Call (Call_GetLoopableMedtronicDirectUploadIdsAfter (UserId queryParams)
                       MedtronicLoopBoundaryDate)]
          (case GetLoopableMedtronicDirectUploadIdsAfter E (UserId queryParams)
                  MedtronicLoopBoundaryDate of
             Inl medtronicErr \<Rightarrow>
               after [Log (LogUploadIdsError medtronicErr)]
                 (abort E res (error_running_query (errs w)) start w)
           | Inr medtronicUploadIds \<Rightarrow>
               streamData E
                 (queryParams\<lparr>MedtronicDate := MedtronicLoopBoundaryDate,
                              MedtronicUploadIds := medtronicUploadIds\<rparr>) res w)
      else streamData E queryParams res w)"

text \<open>\<^verbatim>\<open>if _, ok := req.URL.Query()["medtronic"]; !ok { ... }\<close>\<close>

definition stepMedtronic ::
  "'v env \<Rightarrow> request \<Rightarrow> Params \<Rightarrow> response \<Rightarrow> int \<Rightarrow> world \<Rightarrow> result" where
  "stepMedtronic E req queryParams res start w =
     (if map_of (Query req) ''medtronic'' = None then
        after [Call (Call_HasMedtronicLoopDataAfter (UserId queryParams)
                       MedtronicLoopBoundaryDate)]
          (case HasMedtronicLoopDataAfter E (UserId queryParams) MedtronicLoopBoundaryDate of
             Inl medtronicErr \<Rightarrow>
               after [Log (LogMedtronicLoopError medtronicErr)]
                 (abort E res (error_running_query (errs w)) start w)
           | Inr hasMedtronicLoopData \<Rightarrow>
               if \<not> hasMedtronicLoopData
               then stepUploadIds E (queryParams\<lparr>Medtronic := True\<rparr>) res start w
               else stepUploadIds E queryParams res start w)
      else stepUploadIds E queryParams res start w)"

text \<open>\<^verbatim>\<open>if !queryParams.Dexcom { ... }\<close>\<close>

definition stepDexcom ::
  "'v env \<Rightarrow> request \<Rightarrow> Params \<Rightarrow> response \<Rightarrow> int \<Rightarrow> world \<Rightarrow> result" where
  "stepDexcom E req queryParams res start w =
     (if \<not> Dexcom queryParams then
        after [Call (Call_GetDexcomDataSource (UserId queryParams))]
          (case GetDexcomDataSource E (UserId queryParams) of
             Inl dexcomErr \<Rightarrow>
               after [Log (LogDexcomError dexcomErr)]
                 (abort E res (error_running_query (errs w)) start w)
           | Inr dexcomDataSource \<Rightarrow>
               stepMedtronic E req (queryParams\<lparr>DexcomDataSource := dexcomDataSource\<rparr>)
                 res start w)
      else stepMedtronic E req queryParams res start w)"

text \<open>\<^verbatim>\<open>if _, ok := req.URL.Query()["carelink"]; !ok { ... }\<close>\<close>

definition stepCarelink ::
  "'v env \<Rightarrow> request \<Rightarrow> Params \<Rightarrow> response \<Rightarrow> int \<Rightarrow> world \<Rightarrow> result" where
  "stepCarelink E req queryParams res start w =
     (if map_of (Query req) ''carelink'' = None then
        after [Call (Call_HasMedtronicDirectData (UserId queryParams))]
          (case HasMedtronicDirectData E (UserId queryParams) of
             Inl medtronicErr \<Rightarrow>
               after [Log (LogMedtronicDirectError medtronicErr)]
                 (abort E res (error_running_query (errs w)) start w)
           | Inr hasMedtronicDirectData \<Rightarrow>
               if \<not> hasMedtronicDirectData
               then stepDexcom E req (queryParams\<lparr>Carelink := True\<rparr>) res start w
               else stepDexcom E req queryParams res start w)
      else stepDexcom E req queryParams res start w)"

text \<open>
  The identity of the caller (\<^verbatim>\<open>var td *shoreline.TokenData\<close> and the \<^verbatim>\<open>if\<close>/\<^verbatim>\<open>else if\<close>
  that assigns it). \<^verbatim>\<open>Header.Get\<close> is \<^verbatim>\<open>""\<close> for a header that is not there.
\<close>

definition resolveToken :: "'v env \<Rightarrow> request \<Rightarrow> TokenData option \<times> event list" where
  "resolveToken E req =
     (let sessionToken = Get (Header req) ''x-tidepool-session-token'' in
      if sessionToken \<noteq> '''' then
        (CheckToken E sessionToken, [Call (Call_CheckToken sessionToken)])
      else
        (case map_of (Query req) ''restricted_token'' of
           None \<Rightarrow> (None, [])
         | Some restrictedTokens \<Rightarrow>
             if length restrictedTokens = 1 then
               (case GetRestrictedToken E (restrictedTokens ! 0) of
                  (Some restrictedToken, None) \<Rightarrow>
                    if Authenticates E restrictedToken req
                    then (Some \<lparr>UserID = rt_UserID restrictedToken, IsServer = False\<rparr>,
                          [Call (Call_GetRestrictedToken (restrictedTokens ! 0)),
                           Call (Call_Authenticates restrictedToken)])
                    else (None,
                          [Call (Call_GetRestrictedToken (restrictedTokens ! 0)),
                           Call (Call_Authenticates restrictedToken)])
                | _ \<Rightarrow> (None, [Call (Call_GetRestrictedToken (restrictedTokens ! 0))]))
             else (None, [])))"

text \<open>
  The condition of the gate,
  \<^verbatim>\<open>td == nil || !(td.IsServer || td.UserID == queryParams.UserId || userCanViewData(...))\<close>,
  with the short-circuit evaluation of \<^verbatim>\<open>||\<close>.
\<close>

definition denied :: "'v env \<Rightarrow> TokenData option \<Rightarrow> Params \<Rightarrow> bool \<times> event list" where
  "denied E td queryParams =
     (case td of
        None \<Rightarrow> (True, [])
      | Some t \<Rightarrow>
          if IsServer t then (False, [])
          else if UserID t = UserId queryParams then (False, [])
          else (case userCanViewData E (UserID t) (UserId queryParams) of
                  (ok, evs) \<Rightarrow> (\<not> ok, evs)))"

definition handleUserData :: "'v env \<Rightarrow> response \<Rightarrow> request \<Rightarrow> world \<Rightarrow> result" where
  "handleUserData E res req w =
     (let (start, w1) = now E w in
      after [Call Call_GetParams]
        (case GetParams E (Query req) of
           Inl err \<Rightarrow>
             after [Log (LogParseError err)]
               (abort E res (error_invalid_parameters (errs w1)) start w1)
         | Inr queryParams \<Rightarrow>
             (case resolveToken E req of
                (td, evs1) \<Rightarrow>
                  after evs1
                    (case denied E td queryParams of
                       (no, evs2) \<Rightarrow>
                         after evs2
                           (if no then abort E res (error_no_view_permisson (errs w1)) start w1
                            else stepCarelink E req queryParams res start w1)))))"

text \<open>
  The server: each request is given a new response writer, and finds the collaborators
  as they are at that time.
\<close>

datatype route = GET_status | GET_userID request

definition new_response :: response where
  "new_response = \<lparr>headers = [], statusCode = None, body = ''''\<rparr>"

definition handle :: "'v env \<Rightarrow> route \<Rightarrow> world \<Rightarrow> result" where
  "handle E r w =
     (case r of GET_status \<Rightarrow> handleStatus E new_response w
              | GET_userID req \<Rightarrow> handleUserData E new_response req w)"

fun serve :: "('v env \<times> route) list \<Rightarrow> world \<Rightarrow> (outcome \<times> response \<times> event list) list \<times> world" where
  "serve [] w = ([], w)"
| "serve ((E, r) # rest) w =
     (case handle E r w of
        (out, res, evs, w') \<Rightarrow>
          (case serve rest w' of (rs, w'') \<Rightarrow> ((out, res, evs) # rs, w'')))"

section \<open>Reading a result\<close>

definition outcome_of :: "result \<Rightarrow> outcome" where
  "outcome_of r = fst r"

definition response_of :: "result \<Rightarrow> response" where
  "response_of r = fst (snd r)"

definition events_of :: "result \<Rightarrow> event list" where
  "events_of r = fst (snd (snd r))"

definition world_of :: "result \<Rightarrow> world" where
  "world_of r = snd (snd (snd r))"

fun calls_of :: "event list \<Rightarrow> call list" where
  "calls_of [] = []"
| "calls_of (Call c # evs) = c # calls_of evs"
| "calls_of (Log l # evs) = calls_of evs"

fun logs_of :: "event list \<Rightarrow> logline list" where
  "logs_of [] = []"
| "logs_of (Call c # evs) = logs_of evs"
| "logs_of (Log l # evs) = l # logs_of evs"

text \<open>The filters handed to the query executor, and whether a cursor was acquired.\<close>

fun filters_of :: "call list \<Rightarrow> Params list" where
  "filters_of [] = []"
| "filters_of (Call_GetDeviceData f # cs) = f # filters_of cs"
| "filters_of (c # cs) = filters_of cs"

definition acquired :: "event list \<Rightarrow> bool" where
  "acquired evs = (filters_of (calls_of evs) \<noteq> [])"

text \<open>
  The stage of the pipeline a call belongs to: parameter parsing, identity, sharing, the
  four enrichment lookups, the query, the draining of the cursor, its release.
\<close>

fun stage :: "call \<Rightarrow> nat" where
  "stage Call_GetParams = 0"
| "stage (Call_CheckToken t) = 1"
| "stage (Call_GetRestrictedToken t) = 1"
| "stage (Call_Authenticates rt) = 1"
| "stage (Call_UserInGroup a b) = 2"
| "stage Call_Ping = 0"
| "stage (Call_HasMedtronicDirectData u) = 3"
| "stage (Call_GetDexcomDataSource u) = 4"
| "stage (Call_HasMedtronicLoopDataAfter u d) = 5"
| "stage (Call_GetLoopableMedtronicDirectUploadIdsAfter u d) = 6"
| "stage (Call_GetDeviceData f) = 7"
| "stage Call_Next = 8"
| "stage Call_Close = 9"

fun is_lookup :: "call \<Rightarrow> bool" where
  "is_lookup (Call_HasMedtronicDirectData u) = True"
| "is_lookup (Call_GetDexcomDataSource u) = True"
| "is_lookup (Call_HasMedtronicLoopDataAfter u d) = True"
| "is_lookup (Call_GetLoopableMedtronicDirectUploadIdsAfter u d) = True"
| "is_lookup c = False"

fun is_store_call :: "call \<Rightarrow> bool" where
  "is_store_call (Call_GetDeviceData f) = True"
| "is_store_call Call_Next = True"
| "is_store_call Call_Close = True"
| "is_store_call Call_Ping = True"
| "is_store_call c = is_lookup c"

text \<open>An enrichment lookup that returned an error.\<close>

fun lookup_failed :: "'v env \<Rightarrow> call \<Rightarrow> bool" where
  "lookup_failed E (Call_HasMedtronicDirectData u) = isl (HasMedtronicDirectData E u)"
| "lookup_failed E (Call_GetDexcomDataSource u) = isl (GetDexcomDataSource E u)"
| "lookup_failed E (Call_HasMedtronicLoopDataAfter u d) = isl (HasMedtronicLoopDataAfter E u d)"
| "lookup_failed E (Call_GetLoopableMedtronicDirectUploadIdsAfter u d) =
     isl (GetLoopableMedtronicDirectUploadIdsAfter E u d)"
| "lookup_failed E c = False"

text \<open>The log line written next to a failed lookup (its true cause).\<close>

fun lookup_cause :: "'v env \<Rightarrow> call \<Rightarrow> logline option" where
  "lookup_cause E (Call_HasMedtronicDirectData u) =
     (case HasMedtronicDirectData E u of Inl e \<Rightarrow> Some (LogMedtronicDirectError e) | Inr _ \<Rightarrow> None)"
| "lookup_cause E (Call_GetDexcomDataSource u) =
     (case GetDexcomDataSource E u of Inl e \<Rightarrow> Some (LogDexcomError e) | Inr _ \<Rightarrow> None)"
| "lookup_cause E (Call_HasMedtronicLoopDataAfter u d) =
     (case HasMedtronicLoopDataAfter E u d of Inl e \<Rightarrow> Some (LogMedtronicLoopError e) | Inr _ \<Rightarrow> None)"
| "lookup_cause E (Call_GetLoopableMedtronicDirectUploadIdsAfter u d) =
     (case GetLoopableMedtronicDirectUploadIdsAfter E u d of
        Inl e \<Rightarrow> Some (LogUploadIdsError e) | Inr _ \<Rightarrow> None)"
| "lookup_cause E c = None"

text \<open>
  The envelope a client receives for the error \<open>err\<close> when the identifier drawn is \<open>u\<close>:
  the response that \<^verbatim>\<open>jsonError\<close> leaves on a writer whose header is not yet written.
\<close>

definition envelope :: "'v env \<Rightarrow> response \<Rightarrow> detailedError \<Rightarrow> string \<Rightarrow> response" where
  "envelope E res err u =
     \<lparr>headers = headers res @ [(''content-type'', ''application/json'')],
      statusCode = Some (Status err),
      body = body res @ marshal_detailedError E (err\<lparr>Id' := u\<rparr>)\<rparr>"

section \<open>JSON arrays\<close>

text \<open>
  The array production of RFC 8259 over a given set \<open>V\<close> of JSON values:
  \<^verbatim>\<open>ws [ ws ( value ( ws , ws value )* )? ws ] ws\<close>. \<open>json_array V s vs\<close> says that \<open>s\<close> is
  an array whose elements are the texts \<open>vs\<close>, in this order.
\<close>

definition json_ws :: "string \<Rightarrow> bool" where
  "json_ws s = (set s \<subseteq> {CHR 0x20, CHR 0x09, CHR 0x0A, CHR 0x0D})"

inductive json_elements :: "(string \<Rightarrow> bool) \<Rightarrow> string \<Rightarrow> string list \<Rightarrow> bool"
  for V :: "string \<Rightarrow> bool" where
  single: "V v \<Longrightarrow> json_elements V v [v]"
| more: "V v \<Longrightarrow> json_ws a \<Longrightarrow> json_ws b \<Longrightarrow> json_elements V s vs
         \<Longrightarrow> json_elements V (v @ a @ '','' @ b @ s) (v # vs)"

inductive json_array :: "(string \<Rightarrow> bool) \<Rightarrow> string \<Rightarrow> string list \<Rightarrow> bool"
  for V :: "string \<Rightarrow> bool" where
  empty: "json_ws a \<Longrightarrow> json_ws b \<Longrightarrow> json_ws c
          \<Longrightarrow> json_array V (a @ ''['' @ b @ '']'' @ c) []"
| elements: "json_ws a \<Longrightarrow> json_ws b \<Longrightarrow> json_ws c \<Longrightarrow> json_ws d \<Longrightarrow> json_elements V s vs
          \<Longrightarrow> json_array V (a @ ''['' @ b @ s @ c @ '']'' @ d) vs"

text \<open>
  The texts of the documents that are not empty and that \<^verbatim>\<open>json.Marshal\<close> serializes,
  in the order of the cursor.
\<close>

fun serialized :: "'v env \<Rightarrow> 'v deviceData list \<Rightarrow> string list" where
  "serialized E [] = []"
| "serialized E (d # ds) =
     (if len d > 0 then
        (case json_Marshal E d of Inl err \<Rightarrow> serialized E ds
                                | Inr bytes \<Rightarrow> bytes # serialized E ds)
      else serialized E ds)"

text \<open>The documents that are not empty and whose serialization fails.\<close>

fun marshal_failures :: "'v env \<Rightarrow> 'v deviceData list \<Rightarrow> error list" where
  "marshal_failures E [] = []"
| "marshal_failures E (d # ds) =
     (if len d > 0 then
        (case json_Marshal E d of Inl err \<Rightarrow> err # marshal_failures E ds
                                | Inr bytes \<Rightarrow> marshal_failures E ds)
      else marshal_failures E ds)"

text \<open>
  What the loop of \<^verbatim>\<open>processResults\<close> writes for the texts \<open>ss\<close> when \<open>n\<close> documents
  were written before: a comma before every text but the very first, and a newline.
\<close>

fun separated :: "nat \<Rightarrow> string list \<Rightarrow> string" where
  "separated n [] = []"
| "separated n (s # ss) =
     (if n > 0 then '','' else []) @ [CHR 0x0A] @ s @ separated (Suc n) ss"

section \<open>Parameter parsing\<close>

text \<open>
  \<^verbatim>\<open>store.GetParams\<close>, which the handler calls first, is in the store package and not in
  the handler's file. The definitions of this section follow the specification of the
  Filter Resolver, step 1. The reader of ISO-8601 timestamps is the parameter
  \<open>parseTime\<close> (\<open>None\<close> for a text that is not a timestamp).
\<close>

text \<open>
  Modelled from the spec: the splitting of a comma-separated list, missing with
  \<^verbatim>\<open>store.GetParams\<close>.
\<close>

fun splitOn :: "char \<Rightarrow> string \<Rightarrow> string list" where
  "splitOn c [] = [[]]"
| "splitOn c (x # xs) =
     (if x = c then [] # splitOn c xs
      else (case splitOn c xs of [] \<Rightarrow> [[x]] | y # ys \<Rightarrow> (x # y) # ys))"

text \<open>
  Modelled from the spec: \<^verbatim>\<open>type\<close> and \<^verbatim>\<open>subtype\<close> are read as comma-separated
  inclusion sets (part of the missing \<^verbatim>\<open>store.GetParams\<close>); no value, no restriction.
\<close>

definition inclusionSet :: "Values \<Rightarrow> string \<Rightarrow> string list" where
  "inclusionSet q k = (if Get q k = '''' then [] else splitOn CHR '','' (Get q k))"

text \<open>
  Modelled from the spec: \<^verbatim>\<open>startDate\<close> and \<^verbatim>\<open>endDate\<close> are read as ISO-8601 timestamps
  giving an optional inclusive bound, and a malformed date is a validation failure (part
  of the missing \<^verbatim>\<open>store.GetParams\<close>). A parameter that is absent or empty gives no bound.
\<close>

definition dateBound :: "(string \<Rightarrow> int option) \<Rightarrow> Values \<Rightarrow> string \<Rightarrow> error + int option" where
  "dateBound parseTime q k =
     (if Get q k = '''' then Inr None
      else case parseTime (Get q k) of
             None \<Rightarrow> Inl (Error (''malformed date: '' @ Get q k))
           | Some t \<Rightarrow> Inr (Some t))"

text \<open>
  Modelled from the spec: a flag of the request (\<^verbatim>\<open>carelink\<close>, \<^verbatim>\<open>dexcom\<close>,
  \<^verbatim>\<open>medtronic\<close>) is set when it is explicitly true (part of the missing
  \<^verbatim>\<open>store.GetParams\<close>).
\<close>

definition flag :: "Values \<Rightarrow> string \<Rightarrow> bool" where
  "flag q k = (Get q k = ''true'')"

text \<open>
  Modelled from the spec: \<^verbatim>\<open>store.GetParams\<close>, of the store package. It fails on a
  malformed \<^verbatim>\<open>startDate\<close> or \<^verbatim>\<open>endDate\<close> and otherwise builds the filter for the user of
  the path, with nothing yet resolved by the enrichment steps.
\<close>

definition GetParams_spec :: "(string \<Rightarrow> int option) \<Rightarrow> Values \<Rightarrow> error + Params" where
  "GetParams_spec parseTime q =
     (case dateBound parseTime q ''startDate'' of
        Inl e \<Rightarrow> Inl e
      | Inr startDate \<Rightarrow>
          (case dateBound parseTime q ''endDate'' of
             Inl e \<Rightarrow> Inl e
           | Inr endDate \<Rightarrow>
               Inr \<lparr>UserId = Get q '':userID'',
                    Types = inclusionSet q ''type'',
                    SubTypes = inclusionSet q ''subtype'',
                    StartDate = startDate,
                    EndDate = endDate,
                    Carelink = flag q ''carelink'',
                    Dexcom = flag q ''dexcom'',
                    DexcomDataSource = None,
                    Medtronic = flag q ''medtronic'',
                    MedtronicDate = '''',
                    MedtronicUploadIds = []\<rparr>))"

text \<open>A request parameter that is given and is not an ISO-8601 timestamp.\<close>

definition malformed :: "(string \<Rightarrow> int option) \<Rightarrow> Values \<Rightarrow> string \<Rightarrow> bool" where
  "malformed parseTime q k = (Get q k \<noteq> '''' \<and> parseTime (Get q k) = None)"

section \<open>The premises of the authorization claims\<close>

text \<open>The identity the handler resolves for a request (what it assigns to \<^verbatim>\<open>td\<close>).\<close>

definition identity :: "'v env \<Rightarrow> request \<Rightarrow> TokenData option" where
  "identity E req = fst (resolveToken E req)"

text \<open>
  The sharing service gives no access: its lookup fails, or it reports neither
  \<^verbatim>\<open>root\<close> nor \<^verbatim>\<open>view\<close> for the user in the target's group.
\<close>

definition sharing_refuses :: "'v env \<Rightarrow> string \<Rightarrow> string \<Rightarrow> bool" where
  "sharing_refuses E a target =
     (case UserInGroup E a target of
        Inl err \<Rightarrow> True
      | Inr perms \<Rightarrow> map_of perms ''root'' = None \<and> map_of perms ''view'' = None)"

text \<open>
  The identity is absent, or it is neither a server identity nor the target user and the
  sharing service gives it no access.
\<close>

definition not_permitted :: "'v env \<Rightarrow> TokenData option \<Rightarrow> string \<Rightarrow> bool" where
  "not_permitted E td target =
     (case td of
        None \<Rightarrow> True
      | Some t \<Rightarrow> \<not> IsServer t \<and> UserID t \<noteq> target \<and> sharing_refuses E (UserID t) target)"

section \<open>How the enrichment steps end\<close>

text \<open>
  After the lookups \<open>cs\<close>, none of which failed, the handler runs the query with the
  filter \<open>f\<close>.
\<close>

definition ends_in_query ::
  "'v env \<Rightarrow> response \<Rightarrow> world \<Rightarrow> call list \<Rightarrow> Params \<Rightarrow> result \<Rightarrow> bool" where
  "ends_in_query E res w cs f R =
     (R = after (map Call cs) (streamData E f res w)
      \<and> (\<forall>c \<in> set cs. \<not> lookup_failed E c))"

text \<open>
  The last of the lookups \<open>cs\<close> failed, and none before it: the handler logs the cause and returns through
  \<^verbatim>\<open>jsonError\<close> with \<^verbatim>\<open>error_running_query\<close>.
\<close>

definition ends_in_store_error ::
  "'v env \<Rightarrow> response \<Rightarrow> int \<Rightarrow> world \<Rightarrow> call list \<Rightarrow> result \<Rightarrow> bool" where
  "ends_in_store_error E res start w cs R =
     (cs \<noteq> [] \<and> lookup_failed E (last cs) \<and> (\<forall>c \<in> set (butlast cs). \<not> lookup_failed E c)
      \<and> (\<exists>cause. lookup_cause E (last cs) = Some cause
            \<and> R = after (map Call cs @ [Log cause])
                    (abort E res (error_running_query (errs w)) start w)))"

text \<open>The lookups \<open>cs\<close> are enrichment lookups of the steps from \<open>k\<close> on, in the order of the steps.\<close>

definition lookups_from :: "nat \<Rightarrow> call list \<Rightarrow> bool" where
  "lookups_from k cs =
     (sorted_wrt (<) (map stage cs) \<and> (\<forall>c \<in> set cs. is_lookup c \<and> k \<le> stage c))"

section \<open>The identifiers of the errors reported\<close>

text \<open>The correlation identifiers in the lines that \<^verbatim>\<open>jsonError\<close> logs, in order.\<close>

fun error_ids :: "event list \<Rightarrow> string list" where
  "error_ids [] = []"
| "error_ids (Log (LogJsonError i c t m im) # evs) = i # error_ids evs"
| "error_ids (ev # evs) = error_ids evs"

text \<open>The identifiers reported while a sequence of requests is served.\<close>

definition served_ids :: "(outcome \<times> response \<times> event list) list \<Rightarrow> string list" where
  "served_ids rs = concat (map (\<lambda>r. error_ids (snd (snd r))) rs)"

section \<open>Concurrent requests and the memory of the error values\<close>

text \<open>
  The server runs every request in a goroutine of its own, and the error variables are
  shared by all of them. To say what concurrent requests do to these variables, the
  \<^verbatim>\<open>detailedError\<close> values are placed in a store: the six package-level variables, and
  for every goroutine the variables that its calls create, which are the parameter
  \<^verbatim>\<open>err\<close> of \<^verbatim>\<open>jsonError\<close>, the receiver \<^verbatim>\<open>d\<close> of \<^verbatim>\<open>setInternalMessage\<close> and the value
  it returns. A variable of a goroutine does not exist (\<open>None\<close>) before the call that
  creates it.
\<close>

datatype gvar =
    G_status_check
  | G_no_view_permisson
  | G_no_permissons
  | G_running_query
  | G_loading_events
  | G_invalid_parameters

fun entry :: "gvar \<Rightarrow> catalog \<Rightarrow> detailedError" where
  "entry G_status_check c = error_status_check c"
| "entry G_no_view_permisson c = error_no_view_permisson c"
| "entry G_no_permissons c = error_no_permissons c"
| "entry G_running_query c = error_running_query c"
| "entry G_loading_events c = error_loading_events c"
| "entry G_invalid_parameters c = error_invalid_parameters c"

datatype lvar = L_err | L_d | L_ret

datatype addr = Global gvar | Local nat lvar

type_synonym store = "addr \<Rightarrow> detailedError option"

definition store_of :: "catalog \<Rightarrow> store" where
  "store_of c a = (case a of Global g \<Rightarrow> Some (entry g c) | Local t x \<Rightarrow> None)"

text \<open>
  What the code does with these values, one instruction for each access: a struct
  assignment (passing an argument or a receiver by value, returning a value), the
  assignments \<^verbatim>\<open>x.Id = u\<close> and \<^verbatim>\<open>x.InternalMessage = m\<close>, and the reading of a value to
  report it (the log line, \<^verbatim>\<open>json.Marshal(err)\<close> and \<^verbatim>\<open>res.WriteHeader(err.Status)\<close>).
  An assignment through an address changes the variable at this address, whichever it is.
\<close>

datatype instr =
    Copy addr addr
  | SetId addr string
  | SetInternalMessage addr string
  | Report addr

type_synonym observation = "nat \<times> detailedError"

fun exec :: "nat \<Rightarrow> instr \<Rightarrow> store \<Rightarrow> store \<times> observation list" where
  "exec t (Copy dst src) \<sigma> = (\<sigma>(dst := \<sigma> src), [])"
| "exec t (SetId a u) \<sigma> = (\<sigma>(a := map_option (\<lambda>v. v\<lparr>Id' := u\<rparr>) (\<sigma> a)), [])"
| "exec t (SetInternalMessage a m) \<sigma> =
     (\<sigma>(a := map_option (\<lambda>v. v\<lparr>InternalMessage := m\<rparr>) (\<sigma> a)), [])"
| "exec t (Report a) \<sigma> = (\<sigma>, case \<sigma> a of None \<Rightarrow> [] | Some v \<Rightarrow> [(t, v)])"

text \<open>
  \<^verbatim>\<open>jsonError(res, arg, start)\<close> in goroutine \<open>t\<close>, where \<open>arg\<close> is the variable given as
  argument and \<open>u\<close> the identifier drawn: the parameter \<^verbatim>\<open>err\<close> is a new variable holding
  a copy of the argument; \<^verbatim>\<open>err.Id\<close> is assigned; \<^verbatim>\<open>err\<close> is read.
\<close>

definition jsonError_code :: "nat \<Rightarrow> addr \<Rightarrow> string \<Rightarrow> instr list" where
  "jsonError_code t arg u =
     [Copy (Local t L_err) arg, SetId (Local t L_err) u, Report (Local t L_err)]"

text \<open>
  \<^verbatim>\<open>recv.setInternalMessage(internal)\<close> in goroutine \<open>t\<close>: the value receiver \<^verbatim>\<open>d\<close> is a
  new variable holding a copy of \<open>recv\<close>; \<^verbatim>\<open>d.InternalMessage\<close> is assigned; \<^verbatim>\<open>d\<close> is
  returned by value.
\<close>

definition setInternalMessage_code :: "nat \<Rightarrow> addr \<Rightarrow> error \<Rightarrow> instr list" where
  "setInternalMessage_code t recv internal =
     [Copy (Local t L_d) recv, SetInternalMessage (Local t L_d) (Error_msg internal),
      Copy (Local t L_ret) (Local t L_d)]"

text \<open>
  The ways a request can go, as far as the error values are concerned: it touches none
  (the data is streamed, the status is OK); it ends in \<^verbatim>\<open>jsonError(res, error_X, start)\<close>
  for an error variable; or, in the status handler, in
  \<^verbatim>\<open>jsonError(res, error_status_check.setInternalMessage(err), start)\<close>.
\<close>

datatype path = Served | Failed gvar | StatusFailed error

fun handler_code :: "nat \<Rightarrow> path \<Rightarrow> string \<Rightarrow> instr list" where
  "handler_code t Served u = []"
| "handler_code t (Failed g) u = jsonError_code t (Global g) u"
| "handler_code t (StatusFailed e) u =
     setInternalMessage_code t (Global G_status_check) e @ jsonError_code t (Local t L_ret) u"

text \<open>The goroutines of a list of requests, each given by its path and its identifier.\<close>

definition goroutines :: "(path \<times> string) list \<Rightarrow> instr list list" where
  "goroutines rs = map (\<lambda>t. handler_code t (fst (rs ! t)) (snd (rs ! t))) [0..<length rs]"

text \<open>
  A configuration: the store, what each goroutine has still to do, and what has been
  reported. The scheduler picks a goroutine, which makes one step if it has one left; an
  interleaving of the requests is a list of such picks.
\<close>

type_synonym config = "store \<times> instr list list \<times> observation list"

fun sched_step :: "nat \<Rightarrow> config \<Rightarrow> config" where
  "sched_step t (\<sigma>, pool, obs) =
     (if t < length pool then
        (case pool ! t of
           [] \<Rightarrow> (\<sigma>, pool, obs)
         | i # rest \<Rightarrow> (case exec t i \<sigma> of (\<sigma>', new) \<Rightarrow> (\<sigma>', pool[t := rest], obs @ new)))
      else (\<sigma>, pool, obs))"

fun run_schedule :: "nat list \<Rightarrow> config \<Rightarrow> config" where
  "run_schedule [] cfg = cfg"
| "run_schedule (t # ts) cfg = run_schedule ts (sched_step t cfg)"

text \<open>A goroutine running alone.\<close>

fun run_alone :: "nat \<Rightarrow> instr list \<Rightarrow> store \<Rightarrow> store \<times> observation list" where
  "run_alone t [] \<sigma> = (\<sigma>, [])"
| "run_alone t (i # rest) \<sigma> =
     (case exec t i \<sigma> of
        (\<sigma>', new) \<Rightarrow> (case run_alone t rest \<sigma>' of (\<sigma>'', later) \<Rightarrow> (\<sigma>'', new @ later)))"

text \<open>
  An instruction of goroutine \<open>t\<close> that assigns only to variables of \<open>t\<close>, and reads only
  these and the package-level variables.
\<close>

fun owned :: "nat \<Rightarrow> addr \<Rightarrow> bool" where
  "owned t (Local t' x) = (t' = t)"
| "owned t (Global g) = False"

fun readable :: "nat \<Rightarrow> addr \<Rightarrow> bool" where
  "readable t (Local t' x) = (t' = t)"
| "readable t (Global g) = True"

fun confined :: "nat \<Rightarrow> instr \<Rightarrow> bool" where
  "confined t (Copy dst src) = (owned t dst \<and> readable t src)"
| "confined t (SetId a u) = owned t a"
| "confined t (SetInternalMessage a m) = owned t a"
| "confined t (Report a) = readable t a"

text \<open>
  The configuration \<open>cfg\<close> is consistent with the start \<open>(\<sigma>0, pool0)\<close>: the package-level
  variables are as at the start, and every goroutine has done a part of its code, sees its
  own variables as if it had done this part alone, and has reported what it would have
  reported alone.
\<close>

definition consistent :: "store \<Rightarrow> instr list list \<Rightarrow> config \<Rightarrow> bool" where
  "consistent \<sigma>0 pool0 cfg =
     (case cfg of (\<sigma>, pool, obs) \<Rightarrow>
        length pool = length pool0
      \<and> (\<forall>g. \<sigma> (Global g) = \<sigma>0 (Global g))
      \<and> (\<forall>ob \<in> set obs. fst ob < length pool0)
      \<and> (\<forall>t < length pool0. \<exists>past.
            pool0 ! t = past @ pool ! t
          \<and> (\<forall>x. \<sigma> (Local t x) = fst (run_alone t past \<sigma>0) (Local t x))
          \<and> filter (\<lambda>ob. fst ob = t) obs = snd (run_alone t past \<sigma>0)))"

text \<open>
  The response that \<^verbatim>\<open>jsonError\<close> writes for the value \<open>v\<close> it reads from \<^verbatim>\<open>err\<close>, on a
  writer whose header is not yet written.
\<close>

definition envelope_of :: "'v env \<Rightarrow> response \<Rightarrow> detailedError \<Rightarrow> response" where
  "envelope_of E res v =
     \<lparr>headers = headers res @ [(''content-type'', ''application/json'')],
      statusCode = Some (Status v),
      body = body res @ marshal_detailedError E v\<rparr>"

text \<open>The parts of a configuration.\<close>

definition final_store :: "config \<Rightarrow> store" where
  "final_store cfg = fst cfg"

definition remaining :: "config \<Rightarrow> instr list list" where
  "remaining cfg = fst (snd cfg)"

definition reports :: "config \<Rightarrow> observation list" where
  "reports cfg = snd (snd cfg)"

text \<open>
  What a request on the path \<open>p\<close> with the identifier \<open>u\<close> reports when the catalog is
  \<open>c\<close> and nothing interferes: the entry of the catalog with the new identifier (and,
  for the status check, with the internal message).
\<close>

fun expected :: "catalog \<Rightarrow> path \<Rightarrow> string \<Rightarrow> detailedError list" where
  "expected c Served u = []"
| "expected c (Failed g) u = [(entry g c)\<lparr>Id' := u\<rparr>]"
| "expected c (StatusFailed e) u = [(setInternalMessage (error_status_check c) e)\<lparr>Id' := u\<rparr>]"

section \<open>Example requests and collaborators\<close>

text \<open>
  A small deployment for the examples: users \<open>A\<close>, \<open>B\<close>, \<open>C\<close>, \<open>D\<close> and a server
  identity; \<open>C\<close> may view \<open>A\<close>; the sharing service is down for \<open>D\<close>. The timestamp
  reader knows the one timestamp of the handler's comment, the integer encoder the status
  codes in use.
\<close>

definition ex_parseTime :: "string \<Rightarrow> int option" where
  "ex_parseTime s = (if s = ''2015-10-10T15:00:00.000Z'' then Some 1444489200000 else None)"

definition ex_CheckToken :: "string \<Rightarrow> TokenData option" where
  "ex_CheckToken t =
     (if t = ''session-A'' then Some \<lparr>UserID = ''A'', IsServer = False\<rparr>
      else if t = ''session-C'' then Some \<lparr>UserID = ''C'', IsServer = False\<rparr>
      else if t = ''session-D'' then Some \<lparr>UserID = ''D'', IsServer = False\<rparr>
      else if t = ''session-server'' then Some \<lparr>UserID = ''srv'', IsServer = True\<rparr>
      else None)"

definition ex_GetRestrictedToken :: "string \<Rightarrow> RestrictedToken option \<times> error option" where
  "ex_GetRestrictedToken t =
     (if t = ''restricted-B'' then (Some \<lparr>rt_UserID = ''B''\<rparr>, None)
      else (None, Some (Error ''restricted token not found'')))"

definition ex_UserInGroup :: "string \<Rightarrow> string \<Rightarrow> error + Permissions" where
  "ex_UserInGroup a t =
     (if a = ''D'' then Inl (Error ''gatekeeper unavailable'')
      else if a = ''C'' \<and> t = ''A'' then Inr [(''view'', [])]
      else Inr [])"

definition ex_json_int :: "int \<Rightarrow> string" where
  "ex_json_int i = (if i = 200 then ''200'' else if i = 403 then ''403''
                    else if i = 500 then ''500'' else ''0'')"

definition ex_json_string :: "string \<Rightarrow> string" where
  "ex_json_string s = [CHR 0x22] @ s @ [CHR 0x22]"

definition ex_json_Marshal :: "nat deviceData \<Rightarrow> error + string" where
  "ex_json_Marshal d =
     (if d = [(''value'', 1)] then Inr ''{\"value\":1}''
      else if d = [(''value'', 2)] then Inr ''{\"value\":2}''
      else Inl (Error ''json: unsupported value''))"

definition ex_docs :: "nat deviceData list" where
  "ex_docs = [[(''value'', 1)], [], [(''value'', 0)], [(''value'', 2)]]"

definition ex_env :: "nat env" where
  "ex_env = \<lparr>
     GetParams = GetParams_spec ex_parseTime,
     CheckToken = ex_CheckToken,
     GetRestrictedToken = ex_GetRestrictedToken,
     Authenticates = (\<lambda>rt req. True),
     UserInGroup = ex_UserInGroup,
     Ping = None,
     HasMedtronicDirectData = (\<lambda>u. Inr False),
     GetDexcomDataSource = (\<lambda>u. Inr None),
     HasMedtronicLoopDataAfter = (\<lambda>u d. Inr False),
     GetLoopableMedtronicDirectUploadIdsAfter = (\<lambda>u d. Inr [''upload-1'']),
     GetDeviceData = (\<lambda>p. map Doc ex_docs),
     json_Marshal = ex_json_Marshal,
     json_int = ex_json_int,
     json_string = ex_json_string,
     uuid_NewV4 = (\<lambda>n. replicate (Suc n) CHR ''u''),
     time_Now = (\<lambda>n. int n)\<rparr>"

definition ex_world :: world where
  "ex_world = \<lparr>errs = initial_catalog, uuids = 0, ticks = 0\<rparr>"

text \<open>\<^verbatim>\<open>GET /A\<close> with the session of \<open>A\<close> and with the session of \<open>D\<close>.\<close>

definition ex_req_A_by_A :: request where
  "ex_req_A_by_A = \<lparr>Header = [(''x-tidepool-session-token'', [''session-A''])],
                    Query = [('':userID'', [''A''])]\<rparr>"

definition ex_req_A_by_D :: request where
  "ex_req_A_by_D = \<lparr>Header = [(''x-tidepool-session-token'', [''session-D''])],
                    Query = [('':userID'', [''A''])]\<rparr>"

text \<open>\<^verbatim>\<open>GET /B\<close> with the session of \<open>A\<close>, and with the restricted token of \<open>B\<close>.\<close>

definition ex_req_B_by_A :: request where
  "ex_req_B_by_A = \<lparr>Header = [(''x-tidepool-session-token'', [''session-A''])],
                    Query = [('':userID'', [''B''])]\<rparr>"

definition ex_req_B_restricted :: request where
  "ex_req_B_restricted = \<lparr>Header = [],
                          Query = [('':userID'', [''B'']), (''restricted_token'', [''restricted-B''])]\<rparr>"

text \<open>\<^verbatim>\<open>GET /A?startDate=not-a-date\<close>, with no credentials and with the session of \<open>A\<close>.\<close>

definition ex_req_bad_date_anonymous :: request where
  "ex_req_bad_date_anonymous =
     \<lparr>Header = [], Query = [('':userID'', [''A'']), (''startDate'', [''not-a-date''])]\<rparr>"

definition ex_req_B_bad_date_by_C :: request where
  "ex_req_B_bad_date_by_C =
     \<lparr>Header = [(''x-tidepool-session-token'', [''session-C''])],
      Query = [('':userID'', [''B'']), (''endDate'', [''yesterday''])]\<rparr>"

definition ex_req_bad_date_by_A :: request where
  "ex_req_bad_date_by_A =
     \<lparr>Header = [(''x-tidepool-session-token'', [''session-A''])],
      Query = [('':userID'', [''A'']), (''startDate'', [''not-a-date''])]\<rparr>"

text \<open>
  \<^verbatim>\<open>GET /B?restricted_token=restricted-B\<close> with a session token that is not valid, and
  with an empty session header.
\<close>

definition ex_req_B_stale_session :: request where
  "ex_req_B_stale_session =
     \<lparr>Header = [(''x-tidepool-session-token'', [''stale''])],
      Query = [('':userID'', [''B'']), (''restricted_token'', [''restricted-B''])]\<rparr>"

definition ex_req_B_two_restricted :: request where
  "ex_req_B_two_restricted =
     \<lparr>Header = [],
      Query = [('':userID'', [''B'']),
               (''restricted_token'', [''restricted-B'', ''restricted-B''])]\<rparr>"

text \<open>The texts that begin and end as a JSON object does.\<close>

definition ex_is_object :: "string \<Rightarrow> bool" where
  "ex_is_object s = (s \<noteq> [] \<and> hd s = CHR ''{'' \<and> last s = CHR ''}'')"

text \<open>The same deployment with a cursor that panics after its first document.\<close>

definition ex_env_panic :: "nat env" where
  "ex_env_panic = ex_env\<lparr>GetDeviceData := (\<lambda>p. [Doc [(''value'', 1)], Panics])\<rparr>"

text \<open>The same deployment when the store fails on the third lookup.\<close>

definition ex_env_store_down :: "nat env" where
  "ex_env_store_down =
     ex_env\<lparr>HasMedtronicLoopDataAfter := (\<lambda>u d. Inl (Error ''mongo: connection timed out''))\<rparr>"

text \<open>The same deployment for a user with loop-integrated data after the boundary date.\<close>

definition ex_env_loop :: "nat env" where
  "ex_env_loop = ex_env\<lparr>HasMedtronicLoopDataAfter := (\<lambda>u d. Inr True)\<rparr>"

text \<open>The same deployment when the store does not answer the liveness probe.\<close>

definition ex_env_ping :: "nat env" where
  "ex_env_ping = ex_env\<lparr>Ping := Some (Error ''no reachable servers'')\<rparr>"

text \<open>
  Four concurrent requests: a failed status check, two denied requests and a served one;
  and an interleaving of their steps.
\<close>

definition ex_requests :: "(path \<times> string) list" where
  "ex_requests =
     [(StatusFailed (Error ''no reachable servers''), ''u''),
      (Failed G_no_view_permisson, ''uu''),
      (Served, ''''),
      (Failed G_no_view_permisson, ''uuu'')]"

definition ex_schedule :: "nat list" where
  "ex_schedule = [0, 1, 3, 0, 2, 1, 0, 3, 1, 0, 0, 3, 0]"

section \<open>Basic facts\<close>

lemma result_parts [simp]:
  "outcome_of (a, b, c, d) = a"
  "response_of (a, b, c, d) = b"
  "events_of (a, b, c, d) = c"
  "world_of (a, b, c, d) = d"
  by (simp_all add: outcome_of_def response_of_def events_of_def world_of_def)

lemma after_parts [simp]:
  "outcome_of (after evs r) = outcome_of r"
  "response_of (after evs r) = response_of r"
  "events_of (after evs r) = evs @ events_of r"
  "world_of (after evs r) = world_of r"
  by (simp_all add: after_def outcome_of_def response_of_def events_of_def world_of_def
        split: prod.splits)

lemma calls_of_append [simp]: "calls_of (xs @ ys) = calls_of xs @ calls_of ys"
  by (induction xs rule: calls_of.induct) simp_all

lemma logs_of_append [simp]: "logs_of (xs @ ys) = logs_of xs @ logs_of ys"
  by (induction xs rule: logs_of.induct) simp_all

lemma filters_of_append [simp]: "filters_of (xs @ ys) = filters_of xs @ filters_of ys"
  by (induction xs rule: filters_of.induct) simp_all

text \<open>On a writer whose header is not yet written, \<^verbatim>\<open>jsonError\<close> leaves the envelope.\<close>

lemma jsonError_fresh:
  "statusCode res = None \<Longrightarrow>
   jsonError E res err start w =
     (envelope E res err (uuid_NewV4 E (uuids w)),
      [Log (LogJsonError (uuid_NewV4 E (uuids w)) (Code err) (time_Now E (ticks w) - start)
              (Message err) (InternalMessage err))],
      w\<lparr>uuids := Suc (uuids w), ticks := Suc (ticks w)\<rparr>)"
  by (simp add: jsonError_def newV4_def now_def envelope_def Header_Add_def WriteHeader_def
        Write_def Let_def)

lemma abort_fresh:
  "statusCode res = None \<Longrightarrow>
   abort E res err start w =
     (Returned, envelope E res err (uuid_NewV4 E (uuids w)),
      [Log (LogJsonError (uuid_NewV4 E (uuids w)) (Code err) (time_Now E (ticks w) - start)
              (Message err) (InternalMessage err))],
      w\<lparr>uuids := Suc (uuids w), ticks := Suc (ticks w)\<rparr>)"
  by (simp add: abort_def jsonError_fresh)

section \<open>Identity and the gate\<close>

lemma denied_fst: "fst (denied E td queryParams) = not_permitted E td (UserId queryParams)"
  by (auto simp: denied_def not_permitted_def sharing_refuses_def userCanViewData_def
        split: option.splits sum.splits prod.splits)

lemma denied_calls:
  "c \<in> set (calls_of (snd (denied E td queryParams))) \<Longrightarrow> stage c = 2"
  by (auto simp: denied_def userCanViewData_def split: option.splits sum.splits if_splits)

lemma denied_failure_logged:
  "\<not> IsServer t \<Longrightarrow> UserID t \<noteq> UserId queryParams \<Longrightarrow>
   UserInGroup E (UserID t) (UserId queryParams) = Inl e \<Longrightarrow>
   LogUserInGroupError e \<in> set (logs_of (snd (denied E (Some t) queryParams)))"
  by (simp add: denied_def userCanViewData_def)

lemma resolveToken_calls:
  "c \<in> set (calls_of (snd (resolveToken E req))) \<Longrightarrow> stage c = 1"
  by (auto simp: resolveToken_def Let_def split: option.splits if_splits prod.splits)

lemma handleUserData_parse_error:
  assumes "GetParams E (Query req) = Inl err" and "statusCode res = None"
  shows "handleUserData E res req w =
     (Returned,
      envelope E res (error_invalid_parameters (errs w)) (uuid_NewV4 E (uuids w)),
      [Call Call_GetParams, Log (LogParseError err),
       Log (LogJsonError (uuid_NewV4 E (uuids w)) (Code (error_invalid_parameters (errs w)))
              (time_Now E (Suc (ticks w)) - time_Now E (ticks w))
              (Message (error_invalid_parameters (errs w)))
              (InternalMessage (error_invalid_parameters (errs w))))],
      w\<lparr>uuids := Suc (uuids w), ticks := Suc (Suc (ticks w))\<rparr>)"
  using assms
  by (simp add: handleUserData_def now_def abort_fresh after_def)

lemma handleUserData_denied:
  assumes "GetParams E (Query req) = Inr queryParams" and "statusCode res = None"
    and "not_permitted E (identity E req) (UserId queryParams)"
  shows "handleUserData E res req w =
     (Returned,
      envelope E res (error_no_view_permisson (errs w)) (uuid_NewV4 E (uuids w)),
      Call Call_GetParams # snd (resolveToken E req) @
        snd (denied E (identity E req) queryParams) @
      [Log (LogJsonError (uuid_NewV4 E (uuids w)) (Code (error_no_view_permisson (errs w)))
              (time_Now E (Suc (ticks w)) - time_Now E (ticks w))
              (Message (error_no_view_permisson (errs w)))
              (InternalMessage (error_no_view_permisson (errs w))))],
      w\<lparr>uuids := Suc (uuids w), ticks := Suc (Suc (ticks w))\<rparr>)"
proof -
  obtain td evs1 where r: "resolveToken E req = (td, evs1)" by (cases "resolveToken E req")
  obtain no evs2 where d: "denied E td queryParams = (no, evs2)"
    by (cases "denied E td queryParams")
  have td: "identity E req = td" using r by (simp add: identity_def)
  have "no" using denied_fst[of E td queryParams] d assms(3) td by simp
  then show ?thesis
    using assms(1,2) r d td
    by (simp add: handleUserData_def now_def abort_fresh after_def)
qed

section \<open>C1: denial is uniform\<close>

text \<open>
  C1, as amended. For every \<^verbatim>\<open>GET /{userID}\<close> request whose query parameters parse, and
  whose resolved identity is absent, or is neither a server identity nor the target user
  while the sharing service fails or reports neither \<^verbatim>\<open>root\<close> nor \<^verbatim>\<open>view\<close>: the
  response is the one envelope of \<^verbatim>\<open>error_no_view_permisson\<close> (status 403, code
  \<^verbatim>\<open>data_cant_view\<close>), the same in each of these cases. It is produced without any call to
  the store, so it does not depend on whether the target user exists; a failure of the
  permission lookup is logged and changes nothing in the response.
\<close>

theorem denial_is_uniform:
  assumes "GetParams E (Query req) = Inr queryParams"
    and "not_permitted E (identity E req) (UserId queryParams)"
    and "statusCode res = None"
  shows "response_of (handleUserData E res req w) =
           envelope E res (error_no_view_permisson (errs w)) (uuid_NewV4 E (uuids w))
       \<and> (errs w = initial_catalog \<longrightarrow>
            statusCode (response_of (handleUserData E res req w)) = Some 403
          \<and> body (response_of (handleUserData E res req w)) =
              body res @ marshal_detailedError E
                \<lparr>Status = 403, Id' = uuid_NewV4 E (uuids w), Code = ''data_cant_view'',
                 Message = ''user is not authorized to view data'', InternalMessage = ''''\<rparr>)
       \<and> (\<forall>c \<in> set (calls_of (events_of (handleUserData E res req w))). \<not> is_store_call c)
       \<and> (\<forall>t e. identity E req = Some t
               \<and> UserInGroup E (UserID t) (UserId queryParams) = Inl e
             \<longrightarrow> LogUserInGroupError e \<in> set (logs_of (events_of (handleUserData E res req w))))"
proof -
  note h = handleUserData_denied[OF assms(1) assms(3) assms(2), of w]
  have a: "response_of (handleUserData E res req w) =
           envelope E res (error_no_view_permisson (errs w)) (uuid_NewV4 E (uuids w))"
    by (simp add: h)
  have b: "errs w = initial_catalog \<longrightarrow>
            statusCode (response_of (handleUserData E res req w)) = Some 403
          \<and> body (response_of (handleUserData E res req w)) =
              body res @ marshal_detailedError E
                \<lparr>Status = 403, Id' = uuid_NewV4 E (uuids w), Code = ''data_cant_view'',
                 Message = ''user is not authorized to view data'', InternalMessage = ''''\<rparr>"
    by (simp add: a envelope_def initial_catalog_def mkError_def http_StatusForbidden_def)
  have c: "\<forall>c \<in> set (calls_of (events_of (handleUserData E res req w))). \<not> is_store_call c"
  proof
    fix c assume "c \<in> set (calls_of (events_of (handleUserData E res req w)))"
    then have "c = Call_GetParams \<or> stage c = 1 \<or> stage c = 2"
      using resolveToken_calls[of c E req] denied_calls[of c E "identity E req" queryParams]
      by (auto simp: h)
    then show "\<not> is_store_call c" by (cases c) auto
  qed
  have d: "\<forall>t e. identity E req = Some t
               \<and> UserInGroup E (UserID t) (UserId queryParams) = Inl e
             \<longrightarrow> LogUserInGroupError e \<in> set (logs_of (events_of (handleUserData E res req w)))"
  proof (intro allI impI)
    fix t e
    assume t: "identity E req = Some t \<and> UserInGroup E (UserID t) (UserId queryParams) = Inl e"
    with assms(2) have "\<not> IsServer t" "UserID t \<noteq> UserId queryParams"
      by (simp_all add: not_permitted_def)
    then have "LogUserInGroupError e \<in> set (logs_of (snd (denied E (Some t) queryParams)))"
      using t denied_failure_logged by blast
    then show "LogUserInGroupError e \<in> set (logs_of (events_of (handleUserData E res req w)))"
      using t by (simp add: h)
  qed
  show ?thesis using a b c d by blast
qed

text \<open>The request of \<open>D\<close> for the data of \<open>A\<close>, with the sharing service down.\<close>

theorem denial_is_uniform_witness:
  "not_permitted ex_env (identity ex_env ex_req_A_by_D) ''A''
   \<and> statusCode (response_of (handleUserData ex_env new_response ex_req_A_by_D ex_world)) = Some 403
   \<and> LogUserInGroupError (Error ''gatekeeper unavailable'')
       \<in> set (logs_of (events_of (handleUserData ex_env new_response ex_req_A_by_D ex_world)))"
proof -
  have h1: "GetParams ex_env (Query ex_req_A_by_D) =
    Inr \<lparr>UserId = ''A'', Types = [], SubTypes = [], StartDate = None, EndDate = None,
       Carelink = False, Dexcom = False, DexcomDataSource = None, Medtronic = False,
       MedtronicDate = '''', MedtronicUploadIds = []\<rparr>"
    by (simp add: ex_env_def ex_req_A_by_D_def GetParams_spec_def dateBound_def
          inclusionSet_def Get_def flag_def)
  have i: "identity ex_env ex_req_A_by_D = Some \<lparr>UserID = ''D'', IsServer = False\<rparr>"
    by (simp add: identity_def resolveToken_def ex_env_def ex_req_A_by_D_def Get_def
          ex_CheckToken_def)
  have u: "UserInGroup ex_env ''D'' ''A'' = Inl (Error ''gatekeeper unavailable'')"
    by (simp add: ex_env_def ex_UserInGroup_def)
  have h2: "not_permitted ex_env (identity ex_env ex_req_A_by_D) ''A''"
    by (simp add: i not_permitted_def sharing_refuses_def u)
  have h3: "statusCode new_response = None" by (simp add: new_response_def)
  have w: "errs ex_world = initial_catalog" by (simp add: ex_world_def)
  show ?thesis
    using denial_is_uniform[OF h1 _ h3, of ex_world] h2 i u w
    by (simp add: envelope_def initial_catalog_def mkError_def http_StatusForbidden_def)
qed

text \<open>
  C1 as stated fails when the parameters do not parse: the handler parses them before it
  looks at the identity, and \<^verbatim>\<open>GET /A?startDate=not-a-date\<close> without credentials is
  answered with status 500.
\<close>

theorem denial_not_uniform_counterexample:
  "\<not> (identity ex_env ex_req_bad_date_anonymous = None \<longrightarrow>
       statusCode (response_of
         (handleUserData ex_env new_response ex_req_bad_date_anonymous ex_world)) = Some 403)"
  by code_simp

section \<open>C2: identity resolution\<close>

lemma singleton_nth: "length xs = Suc 0 \<Longrightarrow> xs = [xs ! 0]"
  by (cases xs) auto

lemma resolveToken_header:
  "Get (Header req) ''x-tidepool-session-token'' \<noteq> '''' \<Longrightarrow>
   resolveToken E req =
     (CheckToken E (Get (Header req) ''x-tidepool-session-token''),
      [Call (Call_CheckToken (Get (Header req) ''x-tidepool-session-token''))])"
  by (simp add: resolveToken_def Let_def)

lemma resolveToken_restricted:
  assumes "Get (Header req) ''x-tidepool-session-token'' = ''''"
    and "map_of (Query req) ''restricted_token'' = Some [t]"
  shows "resolveToken E req =
     (case GetRestrictedToken E t of
        (Some rt, None) \<Rightarrow>
          (if Authenticates E rt req then Some \<lparr>UserID = rt_UserID rt, IsServer = False\<rparr>
           else None,
           [Call (Call_GetRestrictedToken t), Call (Call_Authenticates rt)])
      | _ \<Rightarrow> (None, [Call (Call_GetRestrictedToken t)]))"
  using assms by (simp add: resolveToken_def split: prod.splits option.splits)

lemma resolveToken_none:
  assumes "Get (Header req) ''x-tidepool-session-token'' = ''''"
    and "\<forall>t. map_of (Query req) ''restricted_token'' \<noteq> Some [t]"
  shows "resolveToken E req = (None, [])"
proof (cases "map_of (Query req) ''restricted_token''")
  case None
  then show ?thesis using assms(1) by (simp add: resolveToken_def)
next
  case (Some ts)
  then have "length ts \<noteq> Suc 0" using assms(2) singleton_nth[of ts] by metis
  then show ?thesis using assms(1) Some by (simp add: resolveToken_def)
qed

text \<open>
  C2. Identity resolution takes the first match and merges nothing. When the session-token
  header has a value, that token alone is validated: the result is what \<^verbatim>\<open>CheckToken\<close>
  returns (no identity when the validation fails) and the restricted token is never
  fetched. Without a header token, the restricted token is fetched exactly when the query
  holds exactly one \<^verbatim>\<open>restricted_token\<close> value, and there is an identity exactly when that
  token resolves without error and \<^verbatim>\<open>Authenticates(req)\<close> is true: the token's user with
  \<^verbatim>\<open>IsServer = false\<close>. A request with no identity is denied: the gate's condition
  holds, no store call is made, and the response is the \<^verbatim>\<open>data_cant_view\<close> envelope (that of
  \<^verbatim>\<open>invalid_parameters\<close> when its parameters did not parse).
\<close>

theorem identity_resolution:
  "(Get (Header req) ''x-tidepool-session-token'' \<noteq> '''' \<longrightarrow>
      resolveToken E req =
        (CheckToken E (Get (Header req) ''x-tidepool-session-token''),
         [Call (Call_CheckToken (Get (Header req) ''x-tidepool-session-token''))]))
 \<and> (Get (Header req) ''x-tidepool-session-token'' = '''' \<longrightarrow>
      (\<forall>t. Call_GetRestrictedToken t \<in> set (calls_of (snd (resolveToken E req)))
            \<longleftrightarrow> map_of (Query req) ''restricted_token'' = Some [t])
    \<and> (\<forall>td. identity E req = Some td \<longleftrightarrow>
            (\<exists>t rt. map_of (Query req) ''restricted_token'' = Some [t]
                  \<and> GetRestrictedToken E t = (Some rt, None)
                  \<and> Authenticates E rt req
                  \<and> td = \<lparr>UserID = rt_UserID rt, IsServer = False\<rparr>)))
 \<and> (identity E req = None \<and> statusCode res = None \<longrightarrow>
      (\<forall>queryParams. fst (denied E (identity E req) queryParams))
    \<and> (\<forall>c \<in> set (calls_of (events_of (handleUserData E res req w))). \<not> is_store_call c)
    \<and> (\<forall>queryParams. GetParams E (Query req) = Inr queryParams \<longrightarrow>
          response_of (handleUserData E res req w) =
            envelope E res (error_no_view_permisson (errs w)) (uuid_NewV4 E (uuids w)))
    \<and> (\<forall>err. GetParams E (Query req) = Inl err \<longrightarrow>
          response_of (handleUserData E res req w) =
            envelope E res (error_invalid_parameters (errs w)) (uuid_NewV4 E (uuids w))))"
proof (intro conjI impI)
  assume "Get (Header req) ''x-tidepool-session-token'' \<noteq> ''''"
  then show "resolveToken E req =
        (CheckToken E (Get (Header req) ''x-tidepool-session-token''),
         [Call (Call_CheckToken (Get (Header req) ''x-tidepool-session-token''))])"
    by (rule resolveToken_header)
next
  assume h: "Get (Header req) ''x-tidepool-session-token'' = ''''"
  show "\<forall>t. Call_GetRestrictedToken t \<in> set (calls_of (snd (resolveToken E req)))
            \<longleftrightarrow> map_of (Query req) ''restricted_token'' = Some [t]"
  proof
    fix t
    show "Call_GetRestrictedToken t \<in> set (calls_of (snd (resolveToken E req)))
            \<longleftrightarrow> map_of (Query req) ''restricted_token'' = Some [t]"
    proof (cases "\<exists>t'. map_of (Query req) ''restricted_token'' = Some [t']")
      case True
      then obtain t' where t': "map_of (Query req) ''restricted_token'' = Some [t']" by blast
      show ?thesis
        using t' by (auto simp: resolveToken_restricted[OF h t'] split: prod.splits option.splits)
    next
      case False
      then show ?thesis using resolveToken_none[OF h, of E] by simp
    qed
  qed
next
  assume h: "Get (Header req) ''x-tidepool-session-token'' = ''''"
  show "\<forall>td. identity E req = Some td \<longleftrightarrow>
            (\<exists>t rt. map_of (Query req) ''restricted_token'' = Some [t]
                  \<and> GetRestrictedToken E t = (Some rt, None)
                  \<and> Authenticates E rt req
                  \<and> td = \<lparr>UserID = rt_UserID rt, IsServer = False\<rparr>)"
  proof
    fix td
    show "identity E req = Some td \<longleftrightarrow>
            (\<exists>t rt. map_of (Query req) ''restricted_token'' = Some [t]
                  \<and> GetRestrictedToken E t = (Some rt, None)
                  \<and> Authenticates E rt req
                  \<and> td = \<lparr>UserID = rt_UserID rt, IsServer = False\<rparr>)"
    proof (cases "\<exists>t'. map_of (Query req) ''restricted_token'' = Some [t']")
      case True
      then obtain t' where t': "map_of (Query req) ''restricted_token'' = Some [t']" by blast
      show ?thesis
        using t'
        by (auto simp: identity_def resolveToken_restricted[OF h t']
              split: prod.splits option.splits if_splits)
    next
      case False
      then show ?thesis using resolveToken_none[OF h, of E] by (simp add: identity_def)
    qed
  qed
next
  assume "identity E req = None \<and> statusCode res = None"
  then show "\<forall>queryParams. fst (denied E (identity E req) queryParams)"
    by (simp add: denied_def)
next
  assume a: "identity E req = None \<and> statusCode res = None"
  show "\<forall>c \<in> set (calls_of (events_of (handleUserData E res req w))). \<not> is_store_call c"
  proof (cases "GetParams E (Query req)")
    case (Inl err)
    then show ?thesis using a by (simp add: handleUserData_parse_error)
  next
    case (Inr queryParams)
    have np: "not_permitted E (identity E req) (UserId queryParams)"
      using a by (simp add: not_permitted_def)
    show ?thesis
    proof
      fix c assume "c \<in> set (calls_of (events_of (handleUserData E res req w)))"
      then have "c = Call_GetParams \<or> stage c = 1 \<or> stage c = 2"
        using resolveToken_calls[of c E req] denied_calls[of c E "identity E req" queryParams] a
        by (auto simp: handleUserData_denied[OF Inr _ np])
      then show "\<not> is_store_call c" by (cases c) auto
    qed
  qed
next
  assume a: "identity E req = None \<and> statusCode res = None"
  show "\<forall>queryParams. GetParams E (Query req) = Inr queryParams \<longrightarrow>
          response_of (handleUserData E res req w) =
            envelope E res (error_no_view_permisson (errs w)) (uuid_NewV4 E (uuids w))"
    using a by (simp add: handleUserData_denied not_permitted_def)
next
  assume a: "identity E req = None \<and> statusCode res = None"
  show "\<forall>err. GetParams E (Query req) = Inl err \<longrightarrow>
          response_of (handleUserData E res req w) =
            envelope E res (error_invalid_parameters (errs w)) (uuid_NewV4 E (uuids w))"
    using a by (simp add: handleUserData_parse_error)
qed


text \<open>
  The restricted token of \<open>B\<close> alone; the same with a session token that is not valid; and
  two restricted tokens.
\<close>

theorem identity_resolution_witness:
  "identity ex_env ex_req_B_restricted = Some \<lparr>UserID = ''B'', IsServer = False\<rparr>
   \<and> resolveToken ex_env ex_req_B_stale_session = (None, [Call (Call_CheckToken ''stale'')])
   \<and> identity ex_env ex_req_B_two_restricted = None
   \<and> response_of (handleUserData ex_env new_response ex_req_B_two_restricted ex_world) =
         envelope ex_env new_response (error_no_view_permisson initial_catalog) ''u''"
proof -
  have h1: "Get (Header ex_req_B_restricted) ''x-tidepool-session-token'' = ''''"
    by (simp add: ex_req_B_restricted_def Get_def)
  have q1: "map_of (Query ex_req_B_restricted) ''restricted_token'' = Some [''restricted-B'']"
    by (simp add: ex_req_B_restricted_def)
  have g1: "GetRestrictedToken ex_env ''restricted-B'' =
              (Some \<lparr>rt_UserID = ''B''\<rparr>, None)"
    by (simp add: ex_env_def ex_GetRestrictedToken_def)
  have a1: "Authenticates ex_env \<lparr>rt_UserID = ''B''\<rparr> ex_req_B_restricted"
    by (simp add: ex_env_def)
  have h2: "Get (Header ex_req_B_stale_session) ''x-tidepool-session-token'' = ''stale''"
    by (simp add: ex_req_B_stale_session_def Get_def)
  have c2: "CheckToken ex_env ''stale'' = None"
    by (simp add: ex_env_def ex_CheckToken_def)
  have h3: "Get (Header ex_req_B_two_restricted) ''x-tidepool-session-token'' = ''''"
    by (simp add: ex_req_B_two_restricted_def Get_def)
  have q3: "map_of (Query ex_req_B_two_restricted) ''restricted_token'' =
              Some [''restricted-B'', ''restricted-B'']"
    by (simp add: ex_req_B_two_restricted_def)
  have p3: "GetParams ex_env (Query ex_req_B_two_restricted) =
    Inr \<lparr>UserId = ''B'', Types = [], SubTypes = [], StartDate = None, EndDate = None,
       Carelink = False, Dexcom = False, DexcomDataSource = None, Medtronic = False,
       MedtronicDate = '''', MedtronicUploadIds = []\<rparr>"
    by (simp add: ex_env_def ex_req_B_two_restricted_def GetParams_spec_def dateBound_def
          inclusionSet_def Get_def flag_def)
  have n: "statusCode new_response = None" by (simp add: new_response_def)
  have i1: "identity ex_env ex_req_B_restricted = Some \<lparr>UserID = ''B'', IsServer = False\<rparr>"
    using identity_resolution[of ex_req_B_restricted ex_env new_response ex_world] h1 q1 g1 a1
    by simp
  have i2: "resolveToken ex_env ex_req_B_stale_session = (None, [Call (Call_CheckToken ''stale'')])"
    using identity_resolution[of ex_req_B_stale_session ex_env new_response ex_world] h2 c2
    by simp
  have i3: "identity ex_env ex_req_B_two_restricted = None"
    using identity_resolution[of ex_req_B_two_restricted ex_env new_response ex_world] h3 q3
    by (cases "identity ex_env ex_req_B_two_restricted") simp_all
  have i4: "response_of (handleUserData ex_env new_response ex_req_B_two_restricted ex_world) =
         envelope ex_env new_response (error_no_view_permisson initial_catalog) ''u''"
    using identity_resolution[of ex_req_B_two_restricted ex_env new_response ex_world] i3 n p3
    by (simp add: ex_world_def ex_env_def)
  show ?thesis using i1 i2 i3 i4 by simp
qed

section \<open>The streaming loop\<close>

lemma Write_parts [simp]:
  "body (Write b r) = body r @ b"
  "headers (Write b r) = headers r"
  "statusCode (Write b r) = Some (case statusCode r of None \<Rightarrow> 200 | Some c \<Rightarrow> c)"
  by (auto simp: Write_def WriteHeader_def Let_def http_StatusOK_def split: option.splits)

text \<open>One turn of the loop, for each of its three ways through the body.\<close>

lemma drain_empty_doc:
  "len d = 0 \<Longrightarrow> drain E rest n res = (out, m, res', evs) \<Longrightarrow>
   drain E (Doc d # rest) n res = (out, m, res', Call Call_Next # evs)"
  by simp

lemma drain_failed_doc:
  "len d > 0 \<Longrightarrow> json_Marshal E d = Inl err \<Longrightarrow> drain E rest n res = (out, m, res', evs) \<Longrightarrow>
   drain E (Doc d # rest) n res =
     (out, m, res', Call Call_Next # Log (LogMarshalFailed err) # evs)"
  by simp

lemma drain_written_doc:
  "len d > 0 \<Longrightarrow> json_Marshal E d = Inr bytes \<Longrightarrow>
   drain E rest (Suc n)
     (Write bytes (Write [CHR 0x0A] (if n > 0 then Write '','' res else res)))
     = (out, m, res', evs) \<Longrightarrow>
   drain E (Doc d # rest) n res = (out, m, res', Call Call_Next # evs)"
  by (simp add: Let_def)

lemma drain_calls:
  "\<exists>k. calls_of (snd (snd (snd (drain E it n res)))) = replicate (Suc k) Call_Next"
proof (induction it arbitrary: n res)
  case Nil
  show ?case by (rule exI[of _ 0]) simp
next
  case (Cons f rest)
  show ?case
  proof (cases f)
    case Panics
    show ?thesis unfolding Panics by (rule exI[of _ 0]) simp
  next
    case (Doc d)
    show ?thesis
    proof (cases "len d > 0")
      case False
      obtain out m res' evs where r: "drain E rest n res = (out, m, res', evs)"
        by (cases "drain E rest n res")
      from Cons[of n res] r obtain k where "calls_of evs = replicate (Suc k) Call_Next" by auto
      then show ?thesis using False drain_empty_doc[OF _ r, of d] Doc
        by (intro exI[of _ "Suc k"]) simp
    next
      case True
      show ?thesis
      proof (cases "json_Marshal E d")
        case (Inl err)
        obtain out m res' evs where r: "drain E rest n res = (out, m, res', evs)"
          by (cases "drain E rest n res")
        from Cons[of n res] r obtain k where "calls_of evs = replicate (Suc k) Call_Next" by auto
        then show ?thesis using drain_failed_doc[OF True Inl r] Doc
          by (intro exI[of _ "Suc k"]) simp
      next
        case (Inr bytes)
        define res3 where "res3 = Write bytes (Write [CHR 0x0A]
           (if n > 0 then Write '','' res else res))"
        obtain out m res' evs where r: "drain E rest (Suc n) res3 = (out, m, res', evs)"
          by (cases "drain E rest (Suc n) res3")
        from Cons[of "Suc n" res3] r obtain k where "calls_of evs = replicate (Suc k) Call_Next"
          by auto
        then show ?thesis using drain_written_doc[OF True Inr r[unfolded res3_def]] Doc
          by (intro exI[of _ "Suc k"]) simp
      qed
    qed
  qed
qed

lemma drain_docs:
  "\<exists>evs. drain E (map Doc docs) n res =
     (Returned, n + length (serialized E docs),
      \<lparr>headers = headers res,
       statusCode = (if serialized E docs = [] then statusCode res
                     else Some (case statusCode res of None \<Rightarrow> 200 | Some c \<Rightarrow> c)),
       body = body res @ separated n (serialized E docs)\<rparr>,
      evs) \<and> logs_of evs = map LogMarshalFailed (marshal_failures E docs)"
proof (induction docs arbitrary: n res)
  case Nil
  show ?case by simp
next
  case (Cons d docs)
  show ?case
  proof (cases "len d > 0")
    case False
    from Cons[of n res] obtain evs where
      r: "drain E (map Doc docs) n res =
     (Returned, n + length (serialized E docs),
      \<lparr>headers = headers res,
       statusCode = (if serialized E docs = [] then statusCode res
                     else Some (case statusCode res of None \<Rightarrow> 200 | Some c \<Rightarrow> c)),
       body = body res @ separated n (serialized E docs)\<rparr>,
      evs)" and l: "logs_of evs = map LogMarshalFailed (marshal_failures E docs)" by blast
    show ?thesis using False drain_empty_doc[OF _ r, of d] l by simp
  next
    case True
    show ?thesis
    proof (cases "json_Marshal E d")
      case (Inl err)
      from Cons[of n res] obtain evs where
        r: "drain E (map Doc docs) n res =
       (Returned, n + length (serialized E docs),
        \<lparr>headers = headers res,
         statusCode = (if serialized E docs = [] then statusCode res
                       else Some (case statusCode res of None \<Rightarrow> 200 | Some c \<Rightarrow> c)),
         body = body res @ separated n (serialized E docs)\<rparr>,
        evs)" and l: "logs_of evs = map LogMarshalFailed (marshal_failures E docs)" by blast
      show ?thesis using True Inl drain_failed_doc[OF True Inl r] l by simp
    next
      case (Inr bytes)
      define res3 where "res3 = Write bytes (Write [CHR 0x0A]
         (if n > 0 then Write '','' res else res))"
      from Cons[of "Suc n" res3] obtain evs where
        r: "drain E (map Doc docs) (Suc n) res3 =
       (Returned, Suc n + length (serialized E docs),
        \<lparr>headers = headers res3,
         statusCode = (if serialized E docs = [] then statusCode res3
                       else Some (case statusCode res3 of None \<Rightarrow> 200 | Some c \<Rightarrow> c)),
         body = body res3 @ separated (Suc n) (serialized E docs)\<rparr>,
        evs)" and l: "logs_of evs = map LogMarshalFailed (marshal_failures E docs)" by blast
      have s: "statusCode res3 = Some (case statusCode res of None \<Rightarrow> 200 | Some c \<Rightarrow> c)"
        by (simp add: res3_def split: option.splits)
      have h: "headers res3 = headers res" by (simp add: res3_def)
      have b: "body res3 = body res @ (if n > 0 then '','' else []) @ [CHR 0x0A] @ bytes"
        by (simp add: res3_def)
      show ?thesis
        using True Inr drain_written_doc[OF True Inr r[unfolded res3_def]] l s h b
        by (simp add: res3_def[symmetric])
    qed
  qed
qed

section \<open>C7: the streamed body is a JSON array\<close>

lemma separated_Suc: "separated (Suc n) ss = separated (Suc m) ss"
proof (induction ss arbitrary: n m)
  case Nil
  show ?case by simp
next
  case (Cons s ss)
  have "separated (Suc (Suc n)) ss = separated (Suc (Suc m)) ss" by (rule Cons.IH)
  then show ?case by simp
qed

lemma json_elements_separated:
  "V s \<Longrightarrow> \<forall>t \<in> set ss. V t \<Longrightarrow> json_elements V (s @ separated (Suc 0) ss) (s # ss)"
proof (induction ss arbitrary: s)
  case Nil
  then show ?case by (simp add: json_elements.single)
next
  case (Cons t ss)
  have ws: "json_ws []" "json_ws [CHR 0x0A]" by (simp_all add: json_ws_def)
  have "json_elements V (t @ separated (Suc 0) ss) (t # ss)" using Cons by simp
  then have "json_elements V (s @ [] @ '','' @ [CHR 0x0A] @ (t @ separated (Suc 0) ss)) (s # t # ss)"
    using Cons.prems(1) ws by (intro json_elements.more)
  then show ?case by (simp add: separated_Suc[of "Suc 0" ss 0])
qed

lemma json_array_separated:
  assumes "\<forall>t \<in> set ss. V t"
  shows "json_array V (''['' @ separated 0 ss @ (if ss = [] then [] else [CHR 0x0A]) @ '']'') ss"
proof (cases ss)
  case Nil
  have "json_array V ([] @ ''['' @ [] @ '']'' @ []) []"
    by (intro json_array.empty) (simp_all add: json_ws_def)
  then show ?thesis using Nil by simp
next
  case (Cons s rest)
  have e: "json_elements V (s @ separated (Suc 0) rest) (s # rest)"
    using assms Cons by (intro json_elements_separated) simp_all
  have "json_array V ([] @ ''['' @ [CHR 0x0A] @ (s @ separated (Suc 0) rest) @ [CHR 0x0A] @ '']'' @ [])
          (s # rest)"
    using e by (intro json_array.elements) (simp_all add: json_ws_def)
  then show ?thesis using Cons by simp
qed

lemma serialized_valid:
  "\<forall>d s. json_Marshal E d = Inr s \<longrightarrow> V s \<Longrightarrow> \<forall>t \<in> set (serialized E docs). V t"
  by (induction docs) (auto split: sum.splits)

lemma processResults_docs:
  assumes "statusCode res = None"
  shows "\<exists>evs. processResults E res (map Doc docs) start w =
     (Returned,
      \<lparr>headers = headers res @ [(''Content-Type'', ''application/json'')],
       statusCode = Some 200,
       body = body res @ ''['' @ separated 0 (serialized E docs) @
              (if serialized E docs = [] then [] else [CHR 0x0A]) @ '']''\<rparr>,
      Log (LogProcessingStarted (time_Now E (ticks w) - start)) # evs @
      [Log (LogProcessingFinished (time_Now E (Suc (ticks w)) - start)
              (length (serialized E docs)))],
      w\<lparr>ticks := Suc (Suc (ticks w))\<rparr>)
    \<and> logs_of evs = map LogMarshalFailed (marshal_failures E docs)"
proof -
  define res2 where "res2 = Write ''['' (Header_Add ''Content-Type'' ''application/json'' res)"
  from drain_docs[of E docs 0 res2] obtain evs where
    d: "drain E (map Doc docs) 0 res2 =
     (Returned, 0 + length (serialized E docs),
      \<lparr>headers = headers res2,
       statusCode = (if serialized E docs = [] then statusCode res2
                     else Some (case statusCode res2 of None \<Rightarrow> 200 | Some c \<Rightarrow> c)),
       body = body res2 @ separated 0 (serialized E docs)\<rparr>,
      evs)" and l: "logs_of evs = map LogMarshalFailed (marshal_failures E docs)" by blast
  have h: "headers res2 = headers res @ [(''Content-Type'', ''application/json'')]"
    using assms by (simp add: res2_def Header_Add_def)
  have s: "statusCode res2 = Some 200"
    using assms by (simp add: res2_def Header_Add_def)
  have b: "body res2 = body res @ ''[''"
    using assms by (simp add: res2_def Header_Add_def)
  have "processResults E res (map Doc docs) start w =
     (Returned,
      \<lparr>headers = headers res @ [(''Content-Type'', ''application/json'')],
       statusCode = Some 200,
       body = body res @ ''['' @ separated 0 (serialized E docs) @
              (if serialized E docs = [] then [] else [CHR 0x0A]) @ '']''\<rparr>,
      Log (LogProcessingStarted (time_Now E (ticks w) - start)) # evs @
      [Log (LogProcessingFinished (time_Now E (Suc (ticks w)) - start)
              (length (serialized E docs)))],
      w\<lparr>ticks := Suc (Suc (ticks w))\<rparr>)"
    unfolding processResults_def now_def Let_def res2_def[symmetric]
    using h s b by (simp add: d Write_def WriteHeader_def http_StatusOK_def)
  then show ?thesis using l by blast
qed

text \<open>
  C7. For every sequence of documents the cursor produces, on a writer whose header is not
  yet written, and given that \<^verbatim>\<open>json.Marshal\<close> returns JSON values (the texts in \<open>V\<close>)
  when it succeeds: \<^verbatim>\<open>processResults\<close> returns normally with status 200; what it writes
  is a JSON array whose elements are exactly the texts of the non-empty documents that
  serialize, in cursor order, so a document whose serialization fails is skipped without
  disturbing the separation of the others; every such failure is logged; and when no
  document is written the body is exactly \<^verbatim>\<open>[]\<close>.
\<close>

theorem streamed_array:
  assumes "statusCode res = None"
    and "\<forall>d s. json_Marshal E d = Inr s \<longrightarrow> V s"
  shows "outcome_of (processResults E res (map Doc docs) start w) = Returned
       \<and> statusCode (response_of (processResults E res (map Doc docs) start w)) = Some 200
       \<and> (\<exists>txt. body (response_of (processResults E res (map Doc docs) start w)) = body res @ txt
               \<and> json_array V txt (serialized E docs))
       \<and> (serialized E docs = [] \<longrightarrow>
            body (response_of (processResults E res (map Doc docs) start w)) = body res @ ''[]'')
       \<and> logs_of (events_of (processResults E res (map Doc docs) start w)) =
            LogProcessingStarted (time_Now E (ticks w) - start) #
            map LogMarshalFailed (marshal_failures E docs) @
            [LogProcessingFinished (time_Now E (Suc (ticks w)) - start)
               (length (serialized E docs))]"
proof -
  from processResults_docs[OF assms(1), of E docs start w] obtain evs where
    p: "processResults E res (map Doc docs) start w =
     (Returned,
      \<lparr>headers = headers res @ [(''Content-Type'', ''application/json'')],
       statusCode = Some 200,
       body = body res @ ''['' @ separated 0 (serialized E docs) @
              (if serialized E docs = [] then [] else [CHR 0x0A]) @ '']''\<rparr>,
      Log (LogProcessingStarted (time_Now E (ticks w) - start)) # evs @
      [Log (LogProcessingFinished (time_Now E (Suc (ticks w)) - start)
              (length (serialized E docs)))],
      w\<lparr>ticks := Suc (Suc (ticks w))\<rparr>)"
    and l: "logs_of evs = map LogMarshalFailed (marshal_failures E docs)" by blast
  have v: "\<forall>t \<in> set (serialized E docs). V t" using assms(2) by (rule serialized_valid)
  have a: "json_array V (''['' @ separated 0 (serialized E docs) @
              (if serialized E docs = [] then [] else [CHR 0x0A]) @ '']'') (serialized E docs)"
    using v by (rule json_array_separated)
  have t: "\<exists>txt. body (response_of (processResults E res (map Doc docs) start w)) = body res @ txt
               \<and> json_array V txt (serialized E docs)"
    using a by (intro exI[of _ "''['' @ separated 0 (serialized E docs) @
              (if serialized E docs = [] then [] else [CHR 0x0A]) @ '']''"]) (simp add: p)
  show ?thesis using t l by (simp add: p)
qed


text \<open>
  Four documents of which one is empty and one does not serialize; and two documents of
  which none is written.
\<close>

theorem streamed_array_witness:
  "statusCode new_response = None
   \<and> json_array ex_is_object
        (''['' @ [CHR 0x0A] @ ''{\"value\":1}'' @ '','' @ [CHR 0x0A] @ ''{\"value\":2}'' @
         [CHR 0x0A] @ '']'')
        [''{\"value\":1}'', ''{\"value\":2}'']
   \<and> body (response_of (processResults ex_env new_response (map Doc [[], [(''value'', 0)]])
         0 ex_world)) = ''[]''"
proof -
  have h1: "statusCode new_response = None" by (simp add: new_response_def)
  have h2: "\<forall>d s. json_Marshal ex_env d = Inr s \<longrightarrow> ex_is_object s"
    by (simp add: ex_env_def ex_json_Marshal_def ex_is_object_def)
  have s1: "serialized ex_env ex_docs = [''{\"value\":1}'', ''{\"value\":2}'']"
    by (simp add: ex_docs_def ex_env_def ex_json_Marshal_def len_def)
  have b1: "body (response_of (processResults ex_env new_response (map Doc ex_docs) 0 ex_world)) =
         ''['' @ [CHR 0x0A] @ ''{\"value\":1}'' @ '','' @ [CHR 0x0A] @ ''{\"value\":2}'' @
         [CHR 0x0A] @ '']''"
    by code_simp
  have s2: "serialized ex_env [[], [(''value'', 0)]] = []"
    by (simp add: ex_env_def ex_json_Marshal_def len_def)
  have n: "body new_response = []" by (simp add: new_response_def)
  have a: "json_array ex_is_object
        (''['' @ [CHR 0x0A] @ ''{\"value\":1}'' @ '','' @ [CHR 0x0A] @ ''{\"value\":2}'' @
         [CHR 0x0A] @ '']'')
        [''{\"value\":1}'', ''{\"value\":2}'']"
    using streamed_array[OF h1 h2, of ex_docs 0 ex_world] b1 s1 n by auto
  have e: "body (response_of (processResults ex_env new_response (map Doc [[], [(''value'', 0)]])
         0 ex_world)) = ''[]''"
    using streamed_array[OF h1 h2, of "[[], [(''value'', 0)]]" 0 ex_world] s2 n by simp
  show ?thesis using h1 a e by blast
qed

section \<open>The query and the release of the cursor\<close>

lemma processResults_calls:
  "\<exists>k. calls_of (events_of (processResults E res it start w)) = replicate (Suc k) Call_Next"
proof -
  define res2 where "res2 = Write ''['' (Header_Add ''Content-Type'' ''application/json'' res)"
  obtain out n res3 evs where d: "drain E it 0 res2 = (out, n, res3, evs)"
    by (cases "drain E it 0 res2")
  from drain_calls[of E it 0 res2] d obtain k where
    k: "calls_of evs = replicate (Suc k) Call_Next" by auto
  have "calls_of (events_of (processResults E res it start w)) = calls_of evs"
    unfolding processResults_def now_def Let_def res2_def[symmetric]
    by (cases out) (simp_all add: d)
  then show ?thesis using k by auto
qed

lemma streamData_calls:
  "\<exists>k. calls_of (events_of (streamData E queryParams res w)) =
         Call_GetDeviceData queryParams # replicate (Suc k) Call_Next @ [Call_Close]"
proof -
  obtain out res' evs w2 where
    p: "processResults E res (GetDeviceData E queryParams) (time_Now E (ticks w))
          (w\<lparr>ticks := Suc (ticks w)\<rparr>) = (out, res', evs, w2)"
    by (cases "processResults E res (GetDeviceData E queryParams) (time_Now E (ticks w))
          (w\<lparr>ticks := Suc (ticks w)\<rparr>)")
  from processResults_calls[of E res "GetDeviceData E queryParams" "time_Now E (ticks w)"
        "w\<lparr>ticks := Suc (ticks w)\<rparr>"] p
  obtain k where "calls_of evs = replicate (Suc k) Call_Next" by auto
  then show ?thesis
    by (intro exI[of _ k]) (simp add: streamData_def now_def Let_def p)
qed

lemma processResults_errs: "errs (world_of (processResults E res it start w)) = errs w"
proof -
  define res2 where "res2 = Write ''['' (Header_Add ''Content-Type'' ''application/json'' res)"
  obtain out n res3 evs where d: "drain E it 0 res2 = (out, n, res3, evs)"
    by (cases "drain E it 0 res2")
  show ?thesis
    unfolding processResults_def now_def Let_def res2_def[symmetric]
    by (cases out) (simp_all add: d)
qed

lemma processResults_uuids: "uuids (world_of (processResults E res it start w)) = uuids w"
proof -
  define res2 where "res2 = Write ''['' (Header_Add ''Content-Type'' ''application/json'' res)"
  obtain out n res3 evs where d: "drain E it 0 res2 = (out, n, res3, evs)"
    by (cases "drain E it 0 res2")
  show ?thesis
    unfolding processResults_def now_def Let_def res2_def[symmetric]
    by (cases out) (simp_all add: d)
qed

section \<open>The enrichment steps\<close>

lemma after_after: "after xs (after ys r) = after (xs @ ys) r"
  by (cases r) (simp add: after_def)

lemma after_Nil [simp]: "after [] r = r"
  by (cases r) (simp add: after_def)

lemma lookups_from_Nil [simp]: "lookups_from k []"
  by (simp add: lookups_from_def)

lemma lookups_from_mono: "k \<le> k' \<Longrightarrow> lookups_from k' cs \<Longrightarrow> lookups_from k cs"
  by (auto simp: lookups_from_def)

lemma lookups_from_Cons:
  "is_lookup c \<Longrightarrow> stage c = k \<Longrightarrow> k < k' \<Longrightarrow> lookups_from k' cs \<Longrightarrow> lookups_from k (c # cs)"
  by (auto simp: lookups_from_def)

text \<open>A step that makes no lookup hands over to the next one.\<close>

lemma shape_skip:
  assumes "k \<le> k'"
    and "\<exists>cs. lookups_from k' cs
            \<and> ((\<exists>f. ends_in_query E res w cs f R) \<or> ends_in_store_error E res start w cs R)"
  shows "\<exists>cs. lookups_from k cs
            \<and> ((\<exists>f. ends_in_query E res w cs f R) \<or> ends_in_store_error E res start w cs R)"
  using assms lookups_from_mono by blast

text \<open>A step whose lookup \<open>c\<close> succeeds, followed by the rest of the steps.\<close>

lemma shape_continue:
  assumes "is_lookup c" and "stage c = k" and "k < k'" and "\<not> lookup_failed E c"
    and "\<exists>cs. lookups_from k' cs
            \<and> ((\<exists>f. ends_in_query E res w cs f R) \<or> ends_in_store_error E res start w cs R)"
  shows "\<exists>cs. lookups_from k cs
            \<and> ((\<exists>f. ends_in_query E res w cs f (after [Call c] R))
               \<or> ends_in_store_error E res start w cs (after [Call c] R))"
proof -
  from assms(5) obtain cs where l: "lookups_from k' cs"
    and e: "(\<exists>f. ends_in_query E res w cs f R) \<or> ends_in_store_error E res start w cs R"
    by blast
  have l': "lookups_from k (c # cs)" using assms(1,2,3) l by (rule lookups_from_Cons)
  from e show ?thesis
  proof
    assume "\<exists>f. ends_in_query E res w cs f R"
    then obtain f where "ends_in_query E res w cs f R" by blast
    then have "ends_in_query E res w (c # cs) f (after [Call c] R)"
      using assms(4) by (simp add: ends_in_query_def after_after)
    then show ?thesis using l' by blast
  next
    assume s: "ends_in_store_error E res start w cs R"
    then have "ends_in_store_error E res start w (c # cs) (after [Call c] R)"
      using assms(4) by (auto simp: ends_in_store_error_def after_after)
    then show ?thesis using l' by blast
  qed
qed

text \<open>A step whose lookup \<open>c\<close> fails.\<close>

lemma shape_fail:
  assumes "is_lookup c" and "stage c = k" and "lookup_failed E c"
    and "lookup_cause E c = Some cause"
  shows "\<exists>cs. lookups_from k cs
            \<and> ((\<exists>f. ends_in_query E res w cs f
                      (after [Call c] (after [Log cause]
                         (abort E res (error_running_query (errs w)) start w))))
               \<or> ends_in_store_error E res start w cs
                      (after [Call c] (after [Log cause]
                         (abort E res (error_running_query (errs w)) start w))))"
proof -
  have "lookups_from k [c]" using assms(1,2) by (simp add: lookups_from_def)
  moreover have "ends_in_store_error E res start w [c]
                      (after [Call c] (after [Log cause]
                         (abort E res (error_running_query (errs w)) start w)))"
    using assms(3,4) by (simp add: ends_in_store_error_def after_after)
  ultimately show ?thesis by blast
qed

lemma shape_query:
  "\<exists>cs. lookups_from k cs
      \<and> ((\<exists>f. ends_in_query E res w cs f (streamData E queryParams res w))
         \<or> ends_in_store_error E res start w cs (streamData E queryParams res w))"
proof -
  have "ends_in_query E res w [] queryParams (streamData E queryParams res w)"
    by (simp add: ends_in_query_def)
  then show ?thesis using lookups_from_Nil by blast
qed


lemma stepUploadIds_shape:
  "\<exists>cs. lookups_from 6 cs
      \<and> ((\<exists>f. ends_in_query E res w cs f (stepUploadIds E queryParams res start w))
         \<or> ends_in_store_error E res start w cs (stepUploadIds E queryParams res start w))"
proof (cases "Medtronic queryParams")
  case True
  then have eq: "stepUploadIds E queryParams res start w = streamData E queryParams res w"
    by (auto simp: stepUploadIds_def)
  show ?thesis unfolding eq by (rule shape_skip[of 6 7]) (simp, rule shape_query)
next
  case False
  let ?c = "Call_GetLoopableMedtronicDirectUploadIdsAfter (UserId queryParams) MedtronicLoopBoundaryDate"
  show ?thesis
  proof (cases "GetLoopableMedtronicDirectUploadIdsAfter E (UserId queryParams) MedtronicLoopBoundaryDate")
    case (Inl e)
    have eq: "stepUploadIds E queryParams res start w =
        after [Call ?c] (after [Log (LogUploadIdsError e)]
          (abort E res (error_running_query (errs w)) start w))"
      using False Inl by (auto simp: stepUploadIds_def)
    show ?thesis unfolding eq by (rule shape_fail) (simp_all add: Inl)
  next
    case (Inr v)
    have eq: "stepUploadIds E queryParams res start w = after [Call ?c] (streamData E (queryParams\<lparr>MedtronicDate := MedtronicLoopBoundaryDate, MedtronicUploadIds := v\<rparr>) res w)"
      using False Inr by (auto simp: stepUploadIds_def)
    show ?thesis unfolding eq
      by (rule shape_continue[of ?c 6 7, OF _ _ _ _ shape_query]) (simp_all add: Inr)
  qed
qed

lemma stepMedtronic_shape:
  "\<exists>cs. lookups_from 5 cs
      \<and> ((\<exists>f. ends_in_query E res w cs f (stepMedtronic E req queryParams res start w))
         \<or> ends_in_store_error E res start w cs (stepMedtronic E req queryParams res start w))"
proof (cases "map_of (Query req) ''medtronic'' \<noteq> None")
  case True
  then have eq: "stepMedtronic E req queryParams res start w = stepUploadIds E queryParams res start w"
    by (auto simp: stepMedtronic_def)
  show ?thesis unfolding eq by (rule shape_skip[of 5 6]) (simp, rule stepUploadIds_shape)
next
  case False
  let ?c = "Call_HasMedtronicLoopDataAfter (UserId queryParams) MedtronicLoopBoundaryDate"
  show ?thesis
  proof (cases "HasMedtronicLoopDataAfter E (UserId queryParams) MedtronicLoopBoundaryDate")
    case (Inl e)
    have eq: "stepMedtronic E req queryParams res start w =
        after [Call ?c] (after [Log (LogMedtronicLoopError e)]
          (abort E res (error_running_query (errs w)) start w))"
      using False Inl by (auto simp: stepMedtronic_def)
    show ?thesis unfolding eq by (rule shape_fail) (simp_all add: Inl)
  next
    case (Inr v)
    have eq: "stepMedtronic E req queryParams res start w = after [Call ?c] (stepUploadIds E (if \<not> v then queryParams\<lparr>Medtronic := True\<rparr> else queryParams) res start w)"
      using False Inr by (auto simp: stepMedtronic_def)
    show ?thesis unfolding eq
      by (rule shape_continue[of ?c 5 6, OF _ _ _ _ stepUploadIds_shape]) (simp_all add: Inr)
  qed
qed

lemma stepDexcom_shape:
  "\<exists>cs. lookups_from 4 cs
      \<and> ((\<exists>f. ends_in_query E res w cs f (stepDexcom E req queryParams res start w))
         \<or> ends_in_store_error E res start w cs (stepDexcom E req queryParams res start w))"
proof (cases "Dexcom queryParams")
  case True
  then have eq: "stepDexcom E req queryParams res start w = stepMedtronic E req queryParams res start w"
    by (auto simp: stepDexcom_def)
  show ?thesis unfolding eq by (rule shape_skip[of 4 5]) (simp, rule stepMedtronic_shape)
next
  case False
  let ?c = "Call_GetDexcomDataSource (UserId queryParams)"
  show ?thesis
  proof (cases "GetDexcomDataSource E (UserId queryParams)")
    case (Inl e)
    have eq: "stepDexcom E req queryParams res start w =
        after [Call ?c] (after [Log (LogDexcomError e)]
          (abort E res (error_running_query (errs w)) start w))"
      using False Inl by (auto simp: stepDexcom_def)
    show ?thesis unfolding eq by (rule shape_fail) (simp_all add: Inl)
  next
    case (Inr v)
    have eq: "stepDexcom E req queryParams res start w = after [Call ?c] (stepMedtronic E req (queryParams\<lparr>DexcomDataSource := v\<rparr>) res start w)"
      using False Inr by (auto simp: stepDexcom_def)
    show ?thesis unfolding eq
      by (rule shape_continue[of ?c 4 5, OF _ _ _ _ stepMedtronic_shape]) (simp_all add: Inr)
  qed
qed

lemma stepCarelink_shape:
  "\<exists>cs. lookups_from 3 cs
      \<and> ((\<exists>f. ends_in_query E res w cs f (stepCarelink E req queryParams res start w))
         \<or> ends_in_store_error E res start w cs (stepCarelink E req queryParams res start w))"
proof (cases "map_of (Query req) ''carelink'' \<noteq> None")
  case True
  then have eq: "stepCarelink E req queryParams res start w = stepDexcom E req queryParams res start w"
    by (auto simp: stepCarelink_def)
  show ?thesis unfolding eq by (rule shape_skip[of 3 4]) (simp, rule stepDexcom_shape)
next
  case False
  let ?c = "Call_HasMedtronicDirectData (UserId queryParams)"
  show ?thesis
  proof (cases "HasMedtronicDirectData E (UserId queryParams)")
    case (Inl e)
    have eq: "stepCarelink E req queryParams res start w =
        after [Call ?c] (after [Log (LogMedtronicDirectError e)]
          (abort E res (error_running_query (errs w)) start w))"
      using False Inl by (auto simp: stepCarelink_def)
    show ?thesis unfolding eq by (rule shape_fail) (simp_all add: Inl)
  next
    case (Inr v)
    have eq: "stepCarelink E req queryParams res start w = after [Call ?c] (stepDexcom E req (if \<not> v then queryParams\<lparr>Carelink := True\<rparr> else queryParams) res start w)"
      using False Inr by (auto simp: stepCarelink_def)
    show ?thesis unfolding eq
      by (rule shape_continue[of ?c 3 4, OF _ _ _ _ stepDexcom_shape]) (simp_all add: Inr)
  qed
qed

section \<open>The handler as a whole\<close>

lemma abort_parts:
  "outcome_of (abort E res err start w) = Returned"
  "events_of (abort E res err start w) =
     [Log (LogJsonError (uuid_NewV4 E (uuids w)) (Code err) (time_Now E (ticks w) - start)
             (Message err) (InternalMessage err))]"
  "world_of (abort E res err start w) = w\<lparr>uuids := Suc (uuids w), ticks := Suc (ticks w)\<rparr>"
  by (simp_all add: abort_def jsonError_def newV4_def now_def Let_def)

lemma calls_of_map_Call [simp]: "calls_of (map Call cs) = cs"
  by (induction cs) simp_all

lemma logs_of_map_Call [simp]: "logs_of (map Call cs) = []"
  by (induction cs) simp_all

lemma store_error_calls:
  "ends_in_store_error E res start w cs R \<Longrightarrow> calls_of (events_of R) = cs"
  by (auto simp: ends_in_store_error_def abort_parts)

lemma query_calls:
  assumes "ends_in_query E res w cs f R"
  shows "\<exists>k. calls_of (events_of R) =
              cs @ Call_GetDeviceData f # replicate (Suc k) Call_Next @ [Call_Close]"
proof -
  from streamData_calls[of E f res w] obtain k where
    "calls_of (events_of (streamData E f res w)) =
       Call_GetDeviceData f # replicate (Suc k) Call_Next @ [Call_Close]" by blast
  then show ?thesis using assms by (intro exI[of _ k]) (simp add: ends_in_query_def)
qed

text \<open>The three ways through the beginning of the handler.\<close>

lemma handleUserData_unparsed:
  "GetParams E (Query req) = Inl err \<Longrightarrow>
   handleUserData E res req w =
     after [Call Call_GetParams, Log (LogParseError err)]
       (abort E res (error_invalid_parameters (errs w)) (time_Now E (ticks w))
          (w\<lparr>ticks := Suc (ticks w)\<rparr>))"
  by (simp add: handleUserData_def now_def after_after)

lemma handleUserData_refused:
  assumes "GetParams E (Query req) = Inr queryParams"
    and "not_permitted E (identity E req) (UserId queryParams)"
  shows "handleUserData E res req w =
     after (Call Call_GetParams # snd (resolveToken E req) @
              snd (denied E (identity E req) queryParams))
       (abort E res (error_no_view_permisson (errs w)) (time_Now E (ticks w))
          (w\<lparr>ticks := Suc (ticks w)\<rparr>))"
proof -
  obtain td evs1 where r: "resolveToken E req = (td, evs1)" by (cases "resolveToken E req")
  obtain no evs2 where d: "denied E td queryParams = (no, evs2)"
    by (cases "denied E td queryParams")
  have td: "identity E req = td" using r by (simp add: identity_def)
  have "no" using denied_fst[of E td queryParams] d assms(2) td by simp
  then show ?thesis
    using assms(1) r d td by (simp add: handleUserData_def now_def after_after)
qed

lemma handleUserData_allowed:
  assumes "GetParams E (Query req) = Inr queryParams"
    and "\<not> not_permitted E (identity E req) (UserId queryParams)"
  shows "handleUserData E res req w =
     after (Call Call_GetParams # snd (resolveToken E req) @
              snd (denied E (identity E req) queryParams))
       (stepCarelink E req queryParams res (time_Now E (ticks w))
          (w\<lparr>ticks := Suc (ticks w)\<rparr>))"
proof -
  obtain td evs1 where r: "resolveToken E req = (td, evs1)" by (cases "resolveToken E req")
  obtain no evs2 where d: "denied E td queryParams = (no, evs2)"
    by (cases "denied E td queryParams")
  have td: "identity E req = td" using r by (simp add: identity_def)
  have "\<not> no" using denied_fst[of E td queryParams] d assms(2) td by simp
  then show ?thesis
    using assms(1) r d td by (simp add: handleUserData_def now_def after_after)
qed

text \<open>The calls of a request, in each of the four ways it can end.\<close>

lemma handleUserData_calls:
  "calls_of (events_of (handleUserData E res req w)) = [Call_GetParams]
   \<or> (\<exists>c1 c2 cs rest.
        calls_of (events_of (handleUserData E res req w)) = Call_GetParams # c1 @ c2 @ cs @ rest
      \<and> (\<forall>c \<in> set c1. stage c = 1) \<and> (\<forall>c \<in> set c2. stage c = 2) \<and> lookups_from 3 cs
      \<and> (rest = [] \<or> (\<forall>c \<in> set cs. \<not> lookup_failed E c)
            \<and> (\<exists>f k. rest = Call_GetDeviceData f # replicate (Suc k) Call_Next @ [Call_Close])))"
proof (cases "GetParams E (Query req)")
  case (Inl err)
  then show ?thesis by (simp add: handleUserData_unparsed abort_parts)
next
  case (Inr queryParams)
  let ?c1 = "calls_of (snd (resolveToken E req))"
  let ?c2 = "calls_of (snd (denied E (identity E req) queryParams))"
  have s1: "\<forall>c \<in> set ?c1. stage c = 1" using resolveToken_calls by blast
  have s2: "\<forall>c \<in> set ?c2. stage c = 2" using denied_calls by blast
  show ?thesis
  proof (cases "not_permitted E (identity E req) (UserId queryParams)")
    case True
    have "calls_of (events_of (handleUserData E res req w)) = Call_GetParams # ?c1 @ ?c2 @ [] @ []"
      by (simp add: handleUserData_refused[OF Inr True] abort_parts)
    then show ?thesis using s1 s2 lookups_from_Nil by blast
  next
    case False
    let ?S = "stepCarelink E req queryParams res (time_Now E (ticks w))
                (w\<lparr>ticks := Suc (ticks w)\<rparr>)"
    have h: "calls_of (events_of (handleUserData E res req w)) =
               Call_GetParams # ?c1 @ ?c2 @ calls_of (events_of ?S)"
      by (simp add: handleUserData_allowed[OF Inr False])
    from stepCarelink_shape[of E res "w\<lparr>ticks := Suc (ticks w)\<rparr>" req queryParams
           "time_Now E (ticks w)"]
    obtain cs where l: "lookups_from 3 cs"
      and e: "(\<exists>f. ends_in_query E res (w\<lparr>ticks := Suc (ticks w)\<rparr>) cs f ?S)
            \<or> ends_in_store_error E res (time_Now E (ticks w)) (w\<lparr>ticks := Suc (ticks w)\<rparr>) cs ?S"
      by blast
    from e show ?thesis
    proof
      assume "\<exists>f. ends_in_query E res (w\<lparr>ticks := Suc (ticks w)\<rparr>) cs f ?S"
      then obtain f where q: "ends_in_query E res (w\<lparr>ticks := Suc (ticks w)\<rparr>) cs f ?S" by blast
      from query_calls[OF q] obtain k where
        "calls_of (events_of ?S) = cs @ Call_GetDeviceData f # replicate (Suc k) Call_Next @ [Call_Close]"
        by blast
      then have "calls_of (events_of (handleUserData E res req w)) =
           Call_GetParams # ?c1 @ ?c2 @ cs @
             (Call_GetDeviceData f # replicate (Suc k) Call_Next @ [Call_Close])"
        using h by simp
      moreover have "\<forall>c \<in> set cs. \<not> lookup_failed E c" using q by (simp add: ends_in_query_def)
      ultimately show ?thesis using s1 s2 l by blast
    next
      assume "ends_in_store_error E res (time_Now E (ticks w)) (w\<lparr>ticks := Suc (ticks w)\<rparr>) cs ?S"
      then have "calls_of (events_of ?S) = cs" by (rule store_error_calls)
      then have "calls_of (events_of (handleUserData E res req w)) =
           Call_GetParams # ?c1 @ ?c2 @ cs @ []"
        using h by simp
      then show ?thesis using s1 s2 l by blast
    qed
  qed
qed

section \<open>C3: the order of the pipeline\<close>

lemma lookup_stage: "is_lookup c \<Longrightarrow> stage c \<le> 6"
  by (cases c) simp_all

lemma lookups_from_sorted: "lookups_from k cs \<Longrightarrow> sorted (map stage cs)"
  by (simp add: lookups_from_def strict_sorted_imp_sorted)

lemma lookups_from_bounds: "lookups_from k cs \<Longrightarrow> c \<in> set cs \<Longrightarrow> k \<le> stage c \<and> stage c \<le> 6"
  by (simp add: lookups_from_def lookup_stage)

lemma pipeline_sorted:
  assumes "\<forall>c \<in> set c1. stage c = 1" and "\<forall>c \<in> set c2. stage c = 2" and "lookups_from 3 cs"
    and "rest = [] \<or> (\<exists>f k. rest = Call_GetDeviceData f # replicate (Suc k) Call_Next @ [Call_Close])"
  shows "sorted (map stage (Call_GetParams # c1 @ c2 @ cs @ rest))"
proof -
  have a: "sorted (map stage c1)" using assms(1) by (induction c1) auto
  have b: "sorted (map stage c2)" using assms(2) by (induction c2) auto
  have c: "sorted (map stage cs)" using assms(3) by (rule lookups_from_sorted)
  have cb: "\<forall>x \<in> set cs. 3 \<le> stage x \<and> stage x \<le> 6"
    using lookups_from_bounds[OF assms(3)] by blast
  have d: "sorted (map stage rest) \<and> (\<forall>x \<in> set rest. 7 \<le> stage x)"
    using assms(4) by (auto simp: sorted_append)
  show ?thesis
    using a b c cb d assms(1,2) by (fastforce simp: sorted_append)
qed

text \<open>
  C3, as amended. The calls of a request are made in the order: parameter parsing
  (\<^verbatim>\<open>store.GetParams\<close>, always first), identity, sharing, the enrichment lookups, the
  query, the draining of the cursor, its release. A request whose parameters do not parse
  is answered with the \<^verbatim>\<open>invalid_parameters\<close> envelope and nothing else is called, whatever
  the gate would decide. A request whose parameters parse and that the gate denies is
  answered with the denial envelope, with no call after the sharing lookup.
\<close>

theorem pipeline_order:
  "sorted (map stage (calls_of (events_of (handleUserData E res req w))))
   \<and> hd (calls_of (events_of (handleUserData E res req w))) = Call_GetParams
   \<and> (\<forall>err. GetParams E (Query req) = Inl err \<and> statusCode res = None \<longrightarrow>
          calls_of (events_of (handleUserData E res req w)) = [Call_GetParams]
        \<and> response_of (handleUserData E res req w) =
            envelope E res (error_invalid_parameters (errs w)) (uuid_NewV4 E (uuids w)))
   \<and> (\<forall>queryParams. GetParams E (Query req) = Inr queryParams
          \<and> not_permitted E (identity E req) (UserId queryParams) \<and> statusCode res = None \<longrightarrow>
          (\<forall>c \<in> set (calls_of (events_of (handleUserData E res req w))). stage c \<le> 2)
        \<and> response_of (handleUserData E res req w) =
            envelope E res (error_no_view_permisson (errs w)) (uuid_NewV4 E (uuids w)))"
proof (intro conjI allI impI)
  from handleUserData_calls[of E res req w]
  show "sorted (map stage (calls_of (events_of (handleUserData E res req w))))"
  proof
    assume "calls_of (events_of (handleUserData E res req w)) = [Call_GetParams]"
    then show ?thesis by simp
  next
    assume "\<exists>c1 c2 cs rest.
        calls_of (events_of (handleUserData E res req w)) = Call_GetParams # c1 @ c2 @ cs @ rest
      \<and> (\<forall>c \<in> set c1. stage c = 1) \<and> (\<forall>c \<in> set c2. stage c = 2) \<and> lookups_from 3 cs
      \<and> (rest = [] \<or> (\<forall>c \<in> set cs. \<not> lookup_failed E c)
            \<and> (\<exists>f k. rest = Call_GetDeviceData f # replicate (Suc k) Call_Next @ [Call_Close]))"
    then obtain c1 c2 cs rest where
      e: "calls_of (events_of (handleUserData E res req w)) = Call_GetParams # c1 @ c2 @ cs @ rest"
      and s1: "\<forall>c \<in> set c1. stage c = 1" and s2: "\<forall>c \<in> set c2. stage c = 2"
      and l: "lookups_from 3 cs"
      and t: "rest = [] \<or> (\<exists>f k. rest = Call_GetDeviceData f # replicate (Suc k) Call_Next @ [Call_Close])"
      by blast
    show ?thesis unfolding e using s1 s2 l t by (rule pipeline_sorted)
  qed
next
  from handleUserData_calls[of E res req w]
  show "hd (calls_of (events_of (handleUserData E res req w))) = Call_GetParams"
    by auto
next
  fix err assume "GetParams E (Query req) = Inl err \<and> statusCode res = None"
  then show "calls_of (events_of (handleUserData E res req w)) = [Call_GetParams]"
    by (simp add: handleUserData_parse_error)
next
  fix err assume "GetParams E (Query req) = Inl err \<and> statusCode res = None"
  then show "response_of (handleUserData E res req w) =
            envelope E res (error_invalid_parameters (errs w)) (uuid_NewV4 E (uuids w))"
    by (simp add: handleUserData_parse_error)
next
  fix queryParams
  assume a: "GetParams E (Query req) = Inr queryParams
          \<and> not_permitted E (identity E req) (UserId queryParams) \<and> statusCode res = None"
  show "\<forall>c \<in> set (calls_of (events_of (handleUserData E res req w))). stage c \<le> 2"
  proof
    fix c assume "c \<in> set (calls_of (events_of (handleUserData E res req w)))"
    then have "c = Call_GetParams \<or> stage c = 1 \<or> stage c = 2"
      using resolveToken_calls[of c E req] denied_calls[of c E "identity E req" queryParams] a
      by (auto simp: handleUserData_denied)
    then show "stage c \<le> 2" by auto
  qed
next
  fix queryParams
  assume a: "GetParams E (Query req) = Inr queryParams
          \<and> not_permitted E (identity E req) (UserId queryParams) \<and> statusCode res = None"
  then show "response_of (handleUserData E res req w) =
            envelope E res (error_no_view_permisson (errs w)) (uuid_NewV4 E (uuids w))"
    by (simp add: handleUserData_denied)
qed

text \<open>
  \<open>A\<close> asking for the data of \<open>B\<close>; \<open>A\<close> asking for their own data with a malformed date.
\<close>

theorem pipeline_order_witness:
  "not_permitted ex_env (identity ex_env ex_req_B_by_A) ''B''
   \<and> response_of (handleUserData ex_env new_response ex_req_B_by_A ex_world) =
       envelope ex_env new_response (error_no_view_permisson initial_catalog) ''u''
   \<and> response_of (handleUserData ex_env new_response ex_req_bad_date_by_A ex_world) =
       envelope ex_env new_response (error_invalid_parameters initial_catalog) ''u''
   \<and> calls_of (events_of (handleUserData ex_env new_response ex_req_bad_date_by_A ex_world)) =
       [Call_GetParams]"
proof -
  have p1: "GetParams ex_env (Query ex_req_B_by_A) =
    Inr \<lparr>UserId = ''B'', Types = [], SubTypes = [], StartDate = None, EndDate = None,
       Carelink = False, Dexcom = False, DexcomDataSource = None, Medtronic = False,
       MedtronicDate = '''', MedtronicUploadIds = []\<rparr>"
    by (simp add: ex_env_def ex_req_B_by_A_def GetParams_spec_def dateBound_def
          inclusionSet_def Get_def flag_def)
  have n1: "not_permitted ex_env (identity ex_env ex_req_B_by_A) ''B''"
    by (simp add: identity_def resolveToken_def ex_env_def ex_req_B_by_A_def Get_def
          ex_CheckToken_def not_permitted_def sharing_refuses_def ex_UserInGroup_def)
  have p2: "GetParams ex_env (Query ex_req_bad_date_by_A) =
              Inl (Error ''malformed date: not-a-date'')"
    by (simp add: ex_env_def ex_req_bad_date_by_A_def GetParams_spec_def dateBound_def
          ex_parseTime_def Get_def)
  have n: "statusCode new_response = None" by (simp add: new_response_def)
  have w: "errs ex_world = initial_catalog" "uuid_NewV4 ex_env (uuids ex_world) = ''u''"
    by (simp_all add: ex_world_def ex_env_def)
  show ?thesis
    using pipeline_order[of ex_env new_response ex_req_B_by_A ex_world]
      pipeline_order[of ex_env new_response ex_req_bad_date_by_A ex_world] p1 n1 p2 n w
    by simp
qed

text \<open>
  C3 as stated fails: \<open>C\<close> has no access to the data of \<open>B\<close>, so the gate would deny
  \<^verbatim>\<open>GET /B?endDate=yesterday\<close>, but the answer is not the denial envelope: the malformed
  date is reported first.
\<close>

theorem gate_before_parsing_counterexample:
  "\<not> (not_permitted ex_env (identity ex_env ex_req_B_bad_date_by_C) ''B'' \<longrightarrow>
       response_of (handleUserData ex_env new_response ex_req_B_bad_date_by_C ex_world) =
         envelope ex_env new_response (error_no_view_permisson initial_catalog) ''u'')"
  by code_simp

section \<open>C8: the cursor is released exactly once\<close>

lemma no_filters: "\<forall>c \<in> set cs. stage c \<noteq> 7 \<Longrightarrow> filters_of cs = []"
  by (induction cs rule: filters_of.induct) simp_all

lemma no_close: "\<forall>c \<in> set cs. stage c \<noteq> 9 \<Longrightarrow> count_list cs Call_Close = 0"
  by (induction cs) auto

lemma filters_of_Next [simp]: "filters_of (replicate k Call_Next @ cs) = filters_of cs"
  by (induction k) simp_all

lemma count_close_Next [simp]: "count_list (replicate k Call_Next) Call_Close = 0"
  by (induction k) simp_all

text \<open>
  C8. In every execution of the data-retrieval handler, whatever the cursor does (it is
  exhausted, a document in mid-stream does not serialize, or \<^verbatim>\<open>Next\<close> panics): when a
  cursor was acquired, it was acquired once, \<^verbatim>\<open>Close\<close> is called exactly once, and it is
  the last call of the handler; when none was acquired \<^verbatim>\<open>Close\<close> is not called.
\<close>

theorem cursor_closed_once:
  "count_list (calls_of (events_of (handleUserData E res req w))) Call_Close =
     (if acquired (events_of (handleUserData E res req w)) then 1 else 0)
   \<and> (acquired (events_of (handleUserData E res req w)) \<longrightarrow>
        length (filters_of (calls_of (events_of (handleUserData E res req w)))) = 1
      \<and> last (calls_of (events_of (handleUserData E res req w))) = Call_Close)"
proof -
  from handleUserData_calls[of E res req w] show ?thesis
  proof
    assume "calls_of (events_of (handleUserData E res req w)) = [Call_GetParams]"
    then show ?thesis by (simp add: acquired_def)
  next
    assume "\<exists>c1 c2 cs rest.
        calls_of (events_of (handleUserData E res req w)) = Call_GetParams # c1 @ c2 @ cs @ rest
      \<and> (\<forall>c \<in> set c1. stage c = 1) \<and> (\<forall>c \<in> set c2. stage c = 2) \<and> lookups_from 3 cs
      \<and> (rest = [] \<or> (\<forall>c \<in> set cs. \<not> lookup_failed E c)
            \<and> (\<exists>f k. rest = Call_GetDeviceData f # replicate (Suc k) Call_Next @ [Call_Close]))"
    then obtain c1 c2 cs rest where
      e: "calls_of (events_of (handleUserData E res req w)) = Call_GetParams # c1 @ c2 @ cs @ rest"
      and s1: "\<forall>c \<in> set c1. stage c = 1" and s2: "\<forall>c \<in> set c2. stage c = 2"
      and l: "lookups_from 3 cs"
      and t: "rest = [] \<or> (\<exists>f k. rest = Call_GetDeviceData f # replicate (Suc k) Call_Next @ [Call_Close])"
      by blast
    have s3: "\<forall>c \<in> set cs. stage c \<noteq> 7 \<and> stage c \<noteq> 9"
      using lookups_from_bounds[OF l] by fastforce
    have f: "filters_of c1 = []" "filters_of c2 = []" "filters_of cs = []"
      using s1 s2 s3 by (simp_all add: no_filters)
    have c: "count_list c1 Call_Close = 0" "count_list c2 Call_Close = 0"
            "count_list cs Call_Close = 0"
      using s1 s2 s3 by (simp_all add: no_close)
    from t show ?thesis
    proof
      assume "rest = []"
      then show ?thesis using f c by (simp add: e acquired_def)
    next
      assume "\<exists>f k. rest = Call_GetDeviceData f # replicate (Suc k) Call_Next @ [Call_Close]"
      then obtain g k where
        r: "rest = Call_GetDeviceData g # replicate (Suc k) Call_Next @ [Call_Close]" by blast
      have fr: "filters_of rest = [g]"
        unfolding r using filters_of_Next[of "Suc k" "[Call_Close]"] by simp
      have cr: "count_list rest Call_Close = 1"
        unfolding r using count_close_Next[of k] by simp
      have lr: "last (Call_GetParams # c1 @ c2 @ cs @ rest) = Call_Close"
        unfolding r by simp
      show ?thesis using f c fr cr lr by (simp add: e acquired_def del: last.simps)
    qed
  qed
qed

text \<open>
  \<open>A\<close> reading their own data, where one document does not serialize; the same with a
  cursor that panics; and a request that is denied.
\<close>

theorem cursor_closed_once_witness:
  "acquired (events_of (handleUserData ex_env new_response ex_req_A_by_A ex_world))
   \<and> (LogMarshalFailed (Error ''json: unsupported value'')
        \<in> set (logs_of (events_of (handleUserData ex_env new_response ex_req_A_by_A ex_world))))
   \<and> count_list (calls_of (events_of (handleUserData ex_env new_response ex_req_A_by_A ex_world)))
        Call_Close = 1
   \<and> acquired (events_of (handleUserData ex_env_panic new_response ex_req_A_by_A ex_world))
   \<and> outcome_of (handleUserData ex_env_panic new_response ex_req_A_by_A ex_world) = Panicked
   \<and> count_list (calls_of (events_of (handleUserData ex_env_panic new_response ex_req_A_by_A ex_world)))
        Call_Close = 1
   \<and> \<not> acquired (events_of (handleUserData ex_env new_response ex_req_B_by_A ex_world))
   \<and> count_list (calls_of (events_of (handleUserData ex_env new_response ex_req_B_by_A ex_world)))
        Call_Close = 0"
proof -
  have a1: "acquired (events_of (handleUserData ex_env new_response ex_req_A_by_A ex_world))"
    by code_simp
  have m1: "LogMarshalFailed (Error ''json: unsupported value'')
        \<in> set (logs_of (events_of (handleUserData ex_env new_response ex_req_A_by_A ex_world)))"
    by code_simp
  have a2: "acquired (events_of (handleUserData ex_env_panic new_response ex_req_A_by_A ex_world))"
    by code_simp
  have o2: "outcome_of (handleUserData ex_env_panic new_response ex_req_A_by_A ex_world) = Panicked"
    by code_simp
  have a3: "\<not> acquired (events_of (handleUserData ex_env new_response ex_req_B_by_A ex_world))"
    by code_simp
  show ?thesis
    using cursor_closed_once[of ex_env new_response ex_req_A_by_A ex_world]
      cursor_closed_once[of ex_env_panic new_response ex_req_A_by_A ex_world]
      cursor_closed_once[of ex_env new_response ex_req_B_by_A ex_world]
      a1 m1 a2 o2 a3
    by simp
qed

section \<open>C5: a failed lookup ends the request\<close>

lemma failed_is_lookup: "lookup_failed E c \<Longrightarrow> is_lookup c"
  by (cases c) simp_all

lemma lookup_stage_lb: "is_lookup c \<Longrightarrow> 3 \<le> stage c"
  by (cases c) simp_all

lemma filter_lookups_none: "\<forall>c \<in> set cs. stage c < 3 \<or> 6 < stage c \<Longrightarrow> filter is_lookup cs = []"
proof -
  assume a: "\<forall>c \<in> set cs. stage c < 3 \<or> 6 < stage c"
  have "\<forall>c \<in> set cs. \<not> is_lookup c"
  proof
    fix c assume "c \<in> set cs"
    with a have "stage c < 3 \<or> 6 < stage c" by blast
    then show "\<not> is_lookup c" using lookup_stage_lb[of c] lookup_stage[of c] by auto
  qed
  then show ?thesis by (simp add: filter_empty_conv)
qed

lemma filter_lookups_all: "lookups_from k cs \<Longrightarrow> filter is_lookup cs = cs"
  by (simp add: lookups_from_def)

lemma lookups_of_request:
  "sorted_wrt (<) (map stage (filter is_lookup (calls_of (events_of (handleUserData E res req w)))))"
proof -
  from handleUserData_calls[of E res req w] show ?thesis
  proof
    assume "calls_of (events_of (handleUserData E res req w)) = [Call_GetParams]"
    then show ?thesis by simp
  next
    assume "\<exists>c1 c2 cs rest.
        calls_of (events_of (handleUserData E res req w)) = Call_GetParams # c1 @ c2 @ cs @ rest
      \<and> (\<forall>c \<in> set c1. stage c = 1) \<and> (\<forall>c \<in> set c2. stage c = 2) \<and> lookups_from 3 cs
      \<and> (rest = [] \<or> (\<forall>c \<in> set cs. \<not> lookup_failed E c)
            \<and> (\<exists>f k. rest = Call_GetDeviceData f # replicate (Suc k) Call_Next @ [Call_Close]))"
    then obtain c1 c2 cs rest where
      e: "calls_of (events_of (handleUserData E res req w)) = Call_GetParams # c1 @ c2 @ cs @ rest"
      and s1: "\<forall>c \<in> set c1. stage c = 1" and s2: "\<forall>c \<in> set c2. stage c = 2"
      and l: "lookups_from 3 cs"
      and t: "rest = [] \<or> (\<exists>f k. rest = Call_GetDeviceData f # replicate (Suc k) Call_Next @ [Call_Close])"
      by blast
    have f1: "filter is_lookup c1 = []" using s1 by (intro filter_lookups_none) simp
    have f2: "filter is_lookup c2 = []" using s2 by (intro filter_lookups_none) simp
    have f3: "filter is_lookup rest = []" using t by (intro filter_lookups_none) auto
    have "filter is_lookup (Call_GetParams # c1 @ c2 @ cs @ rest) = cs"
      using f1 f2 f3 filter_lookups_all[OF l] by simp
    then show ?thesis using l by (simp add: e lookups_from_def)
  qed
qed

lemma sorted_last_max:
  "sorted_wrt (<) (map stage cs) \<Longrightarrow> c \<in> set cs \<Longrightarrow> stage c \<le> stage (last cs)"
proof (induction cs)
  case Nil
  then show ?case by simp
next
  case (Cons a cs)
  then show ?case by (cases cs) (auto simp: less_imp_le)
qed

lemma in_butlast_or_last: "c \<in> set cs \<Longrightarrow> c \<in> set (butlast cs) \<or> c = last cs"
  by (induction cs) (auto split: if_splits)

lemma failed_lookup_ends_request:
  assumes "statusCode res = None"
    and "c \<in> set (calls_of (events_of (handleUserData E res req w)))"
    and "lookup_failed E c"
  shows "response_of (handleUserData E res req w) =
           envelope E res (error_running_query (errs w)) (uuid_NewV4 E (uuids w))
       \<and> (\<forall>c' \<in> set (calls_of (events_of (handleUserData E res req w))). stage c' \<le> stage c)
       \<and> (\<exists>cause. lookup_cause E c = Some cause
              \<and> cause \<in> set (logs_of (events_of (handleUserData E res req w))))"
proof (cases "GetParams E (Query req)")
  case (Inl err)
  then show ?thesis using assms(2,3) by (auto simp: handleUserData_unparsed abort_parts)
next
  case (Inr queryParams)
  let ?c1 = "calls_of (snd (resolveToken E req))"
  let ?c2 = "calls_of (snd (denied E (identity E req) queryParams))"
  have s1: "\<forall>c \<in> set ?c1. stage c = 1" using resolveToken_calls by blast
  have s2: "\<forall>c \<in> set ?c2. stage c = 2" using denied_calls by blast
  have s: "3 \<le> stage c" using assms(3) failed_is_lookup lookup_stage_lb by blast
  show ?thesis
  proof (cases "not_permitted E (identity E req) (UserId queryParams)")
    case True
    have "c \<in> set (Call_GetParams # ?c1 @ ?c2)"
      using assms(2) by (simp add: handleUserData_refused[OF Inr True] abort_parts)
    then have "stage c \<le> 2" using s1 s2 by auto
    then show ?thesis using s by simp
  next
    case False
    let ?w1 = "w\<lparr>ticks := Suc (ticks w)\<rparr>"
    let ?start = "time_Now E (ticks w)"
    let ?S = "stepCarelink E req queryParams res ?start ?w1"
    note h = handleUserData_allowed[OF Inr False, of res w]
    from stepCarelink_shape[of E res ?w1 req queryParams ?start]
    obtain cs where l: "lookups_from 3 cs"
      and e: "(\<exists>f. ends_in_query E res ?w1 cs f ?S) \<or> ends_in_store_error E res ?start ?w1 cs ?S"
      by blast
    from e show ?thesis
    proof
      assume "\<exists>f. ends_in_query E res ?w1 cs f ?S"
      then obtain f where q: "ends_in_query E res ?w1 cs f ?S" by blast
      from query_calls[OF q] obtain k where
        k: "calls_of (events_of ?S) =
              cs @ Call_GetDeviceData f # replicate (Suc k) Call_Next @ [Call_Close]" by blast
      have nf: "\<forall>c \<in> set cs. \<not> lookup_failed E c" using q by (simp add: ends_in_query_def)
      have "c \<in> set (Call_GetParams # ?c1 @ ?c2) \<or> c \<in> set cs
            \<or> c \<in> set (Call_GetDeviceData f # replicate (Suc k) Call_Next @ [Call_Close])"
        using assms(2) by (auto simp: h k)
      then have False
      proof (elim disjE)
        assume "c \<in> set (Call_GetParams # ?c1 @ ?c2)"
        then have "stage c \<le> 2" using s1 s2 by auto
        then show False using s by simp
      next
        assume "c \<in> set cs"
        then show False using nf assms(3) by blast
      next
        assume "c \<in> set (Call_GetDeviceData f # replicate (Suc k) Call_Next @ [Call_Close])"
        then have "\<not> is_lookup c" by auto
        then show False using assms(3) failed_is_lookup by blast
      qed
      then show ?thesis ..
    next
      assume se: "ends_in_store_error E res ?start ?w1 cs ?S"
      then obtain cause where ne: "cs \<noteq> []" and lf: "lookup_failed E (last cs)"
        and bl: "\<forall>c \<in> set (butlast cs). \<not> lookup_failed E c"
        and lc: "lookup_cause E (last cs) = Some cause"
        and S: "?S = after (map Call cs @ [Log cause])
                      (abort E res (error_running_query (errs ?w1)) ?start ?w1)"
        by (auto simp: ends_in_store_error_def)
      have calls: "calls_of (events_of (handleUserData E res req w)) =
                     Call_GetParams # ?c1 @ ?c2 @ cs"
        by (simp add: h S abort_parts)
      have "c \<in> set (Call_GetParams # ?c1 @ ?c2) \<or> c \<in> set cs"
        using assms(2) by (auto simp: calls)
      then have ccs: "c \<in> set cs"
      proof
        assume "c \<in> set (Call_GetParams # ?c1 @ ?c2)"
        then have "stage c \<le> 2" using s1 s2 by auto
        then show ?thesis using s by simp
      qed
      have cl: "c = last cs" using in_butlast_or_last[OF ccs] bl assms(3) by blast
      have r: "response_of (handleUserData E res req w) =
           envelope E res (error_running_query (errs w)) (uuid_NewV4 E (uuids w))"
        by (simp add: h S abort_fresh[OF assms(1)])
      have m: "\<forall>c' \<in> set (calls_of (events_of (handleUserData E res req w))). stage c' \<le> stage c"
      proof
        fix c' assume "c' \<in> set (calls_of (events_of (handleUserData E res req w)))"
        then have "c' \<in> set (Call_GetParams # ?c1 @ ?c2) \<or> c' \<in> set cs" by (auto simp: calls)
        then show "stage c' \<le> stage c"
        proof
          assume "c' \<in> set (Call_GetParams # ?c1 @ ?c2)"
          then have "stage c' \<le> 2" using s1 s2 by auto
          then show ?thesis using s by simp
        next
          assume "c' \<in> set cs"
          then show ?thesis using sorted_last_max[of cs c'] l cl by (simp add: lookups_from_def)
        qed
      qed
      have g: "cause \<in> set (logs_of (events_of (handleUserData E res req w)))"
        by (simp add: h S)
      show ?thesis using r m g lc cl by blast
    qed
  qed
qed

text \<open>
  C5. The enrichment lookups of a request are made in the order Medtronic-direct check,
  Dexcom data source, Medtronic-loop check, loopable upload ids, each at most once. When
  any lookup that is made returns an error, the response is the envelope of
  \<^verbatim>\<open>error_running_query\<close> (status 500, code \<^verbatim>\<open>data_store_error\<close>, with no trace of the
  cause); the failed lookup is the last call of the request, so the device-data query is
  never run and no cursor is acquired; and the cause is in the log.
\<close>

theorem store_failure_aborts:
  assumes "statusCode res = None"
  shows "sorted_wrt (<)
           (map stage (filter is_lookup (calls_of (events_of (handleUserData E res req w)))))
       \<and> (\<forall>c \<in> set (calls_of (events_of (handleUserData E res req w))). lookup_failed E c \<longrightarrow>
             response_of (handleUserData E res req w) =
               envelope E res (error_running_query (errs w)) (uuid_NewV4 E (uuids w))
           \<and> (errs w = initial_catalog \<longrightarrow>
                statusCode (response_of (handleUserData E res req w)) = Some 500
              \<and> body (response_of (handleUserData E res req w)) =
                  body res @ marshal_detailedError E
                    \<lparr>Status = 500, Id' = uuid_NewV4 E (uuids w), Code = ''data_store_error'',
                     Message = ''internal server error'', InternalMessage = ''''\<rparr>)
           \<and> \<not> acquired (events_of (handleUserData E res req w))
           \<and> (\<forall>c' \<in> set (calls_of (events_of (handleUserData E res req w))). stage c' \<le> stage c)
           \<and> (\<exists>cause. lookup_cause E c = Some cause
                  \<and> cause \<in> set (logs_of (events_of (handleUserData E res req w)))))"
proof (intro conjI ballI impI)
  show "sorted_wrt (<)
           (map stage (filter is_lookup (calls_of (events_of (handleUserData E res req w)))))"
    by (rule lookups_of_request)
next
  fix c
  assume c: "c \<in> set (calls_of (events_of (handleUserData E res req w)))"
    and f: "lookup_failed E c"
  note h = failed_lookup_ends_request[OF assms c f]
  show r: "response_of (handleUserData E res req w) =
               envelope E res (error_running_query (errs w)) (uuid_NewV4 E (uuids w))"
    using h by blast
  show "statusCode (response_of (handleUserData E res req w)) = Some 500"
    if "errs w = initial_catalog"
    using that by (simp add: r envelope_def initial_catalog_def mkError_def
          http_StatusInternalServerError_def)
  show "body (response_of (handleUserData E res req w)) =
                  body res @ marshal_detailedError E
                    \<lparr>Status = 500, Id' = uuid_NewV4 E (uuids w), Code = ''data_store_error'',
                     Message = ''internal server error'', InternalMessage = ''''\<rparr>"
    if "errs w = initial_catalog"
    using that by (simp add: r envelope_def initial_catalog_def mkError_def
          http_StatusInternalServerError_def)
  have m: "\<forall>c' \<in> set (calls_of (events_of (handleUserData E res req w))). stage c' \<le> stage c"
    using h by blast
  have "stage c \<le> 6" using f failed_is_lookup lookup_stage by blast
  then have "\<forall>c' \<in> set (calls_of (events_of (handleUserData E res req w))). stage c' \<noteq> 7"
    using m by fastforce
  then show "\<not> acquired (events_of (handleUserData E res req w))"
    by (simp add: acquired_def no_filters)
  show "\<exists>cause. lookup_cause E c = Some cause
                  \<and> cause \<in> set (logs_of (events_of (handleUserData E res req w)))"
    using h by blast
  fix c' assume "c' \<in> set (calls_of (events_of (handleUserData E res req w)))"
  then show "stage c' \<le> stage c" using m by blast
qed

text \<open>\<open>A\<close> reading their own data when the third lookup fails.\<close>

theorem store_failure_aborts_witness:
  "Call_HasMedtronicLoopDataAfter ''A'' ''2017-09-01''
     \<in> set (calls_of (events_of (handleUserData ex_env_store_down new_response ex_req_A_by_A ex_world)))
   \<and> lookup_failed ex_env_store_down (Call_HasMedtronicLoopDataAfter ''A'' ''2017-09-01'')
   \<and> statusCode (response_of (handleUserData ex_env_store_down new_response ex_req_A_by_A ex_world))
       = Some 500
   \<and> \<not> acquired (events_of (handleUserData ex_env_store_down new_response ex_req_A_by_A ex_world))
   \<and> LogMedtronicLoopError (Error ''mongo: connection timed out'')
       \<in> set (logs_of (events_of (handleUserData ex_env_store_down new_response ex_req_A_by_A ex_world)))"
proof -
  have n: "statusCode new_response = None" by (simp add: new_response_def)
  have c: "Call_HasMedtronicLoopDataAfter ''A'' ''2017-09-01''
     \<in> set (calls_of (events_of (handleUserData ex_env_store_down new_response ex_req_A_by_A ex_world)))"
    by code_simp
  have f: "lookup_failed ex_env_store_down (Call_HasMedtronicLoopDataAfter ''A'' ''2017-09-01'')"
    by (simp add: ex_env_store_down_def)
  have l: "lookup_cause ex_env_store_down (Call_HasMedtronicLoopDataAfter ''A'' ''2017-09-01'') =
             Some (LogMedtronicLoopError (Error ''mongo: connection timed out''))"
    by (simp add: ex_env_store_down_def)
  have w: "errs ex_world = initial_catalog" by (simp add: ex_world_def)
  show ?thesis
    using store_failure_aborts[OF n, of ex_env_store_down ex_req_A_by_A ex_world] c f l w
    by fastforce
qed

section \<open>C4: the resolved filter\<close>

lemma streamData_filters:
  "filters_of (calls_of (events_of (streamData E queryParams res w))) = [queryParams]"
proof -
  from streamData_calls[of E queryParams res w] obtain k where
    "calls_of (events_of (streamData E queryParams res w)) =
       Call_GetDeviceData queryParams # replicate (Suc k) Call_Next @ [Call_Close]" by blast
  then show ?thesis using filters_of_Next[of "Suc k" "[Call_Close]"] by simp
qed

lemma streamData_stages:
  "c \<in> set (calls_of (events_of (streamData E queryParams res w))) \<Longrightarrow> 7 \<le> stage c"
proof -
  assume c: "c \<in> set (calls_of (events_of (streamData E queryParams res w)))"
  from streamData_calls[of E queryParams res w] obtain k where
    "calls_of (events_of (streamData E queryParams res w)) =
       Call_GetDeviceData queryParams # replicate (Suc k) Call_Next @ [Call_Close]" by blast
  with c show ?thesis by auto
qed

text \<open>The filter each step hands on, as far as the query.\<close>

lemma stepUploadIds_filters:
  "filters_of (calls_of (events_of (stepUploadIds E queryParams res start w))) =
     (if Medtronic queryParams then [queryParams]
      else case GetLoopableMedtronicDirectUploadIdsAfter E (UserId queryParams)
                  MedtronicLoopBoundaryDate of
             Inl err \<Rightarrow> []
           | Inr ids \<Rightarrow> [queryParams\<lparr>MedtronicDate := MedtronicLoopBoundaryDate,
                                       MedtronicUploadIds := ids\<rparr>])"
  by (simp add: stepUploadIds_def streamData_filters abort_parts split: sum.splits)

lemma stepMedtronic_filters:
  "filters_of (calls_of (events_of (stepMedtronic E req queryParams res start w))) =
     (if map_of (Query req) ''medtronic'' = None then
        (case HasMedtronicLoopDataAfter E (UserId queryParams) MedtronicLoopBoundaryDate of
           Inl err \<Rightarrow> []
         | Inr has \<Rightarrow>
             filters_of (calls_of (events_of
               (stepUploadIds E (if \<not> has then queryParams\<lparr>Medtronic := True\<rparr> else queryParams)
                  res start w))))
      else filters_of (calls_of (events_of (stepUploadIds E queryParams res start w))))"
  by (simp add: stepMedtronic_def abort_parts split: sum.splits)

lemma stepDexcom_filters:
  "filters_of (calls_of (events_of (stepDexcom E req queryParams res start w))) =
     (if \<not> Dexcom queryParams then
        (case GetDexcomDataSource E (UserId queryParams) of
           Inl err \<Rightarrow> []
         | Inr src \<Rightarrow>
             filters_of (calls_of (events_of
               (stepMedtronic E req (queryParams\<lparr>DexcomDataSource := src\<rparr>) res start w))))
      else filters_of (calls_of (events_of (stepMedtronic E req queryParams res start w))))"
  by (simp add: stepDexcom_def abort_parts split: sum.splits)

lemma stepCarelink_filters:
  "filters_of (calls_of (events_of (stepCarelink E req queryParams res start w))) =
     (if map_of (Query req) ''carelink'' = None then
        (case HasMedtronicDirectData E (UserId queryParams) of
           Inl err \<Rightarrow> []
         | Inr has \<Rightarrow>
             filters_of (calls_of (events_of
               (stepDexcom E req (if \<not> has then queryParams\<lparr>Carelink := True\<rparr> else queryParams)
                  res start w))))
      else filters_of (calls_of (events_of (stepDexcom E req queryParams res start w))))"
  by (simp add: stepCarelink_def abort_parts split: sum.splits)

lemma handleUserData_filters:
  assumes "GetParams E (Query req) = Inr queryParams"
    and "f \<in> set (filters_of (calls_of (events_of (handleUserData E res req w))))"
  shows "f \<in> set (filters_of (calls_of (events_of
           (stepCarelink E req queryParams res (time_Now E (ticks w))
              (w\<lparr>ticks := Suc (ticks w)\<rparr>)))))
       \<and> calls_of (events_of (handleUserData E res req w)) =
           Call_GetParams # calls_of (snd (resolveToken E req)) @
           calls_of (snd (denied E (identity E req) queryParams)) @
           calls_of (events_of (stepCarelink E req queryParams res (time_Now E (ticks w))
              (w\<lparr>ticks := Suc (ticks w)\<rparr>)))"
proof -
  let ?c1 = "calls_of (snd (resolveToken E req))"
  let ?c2 = "calls_of (snd (denied E (identity E req) queryParams))"
  have f1: "filters_of ?c1 = []" using resolveToken_calls[of _ E req] by (intro no_filters) auto
  have f2: "filters_of ?c2 = []"
    using denied_calls[of _ E "identity E req" queryParams] by (intro no_filters) auto
  show ?thesis
  proof (cases "not_permitted E (identity E req) (UserId queryParams)")
    case True
    then show ?thesis using assms(2) f1 f2
      by (simp add: handleUserData_refused[OF assms(1) True] abort_parts)
  next
    case False
    then show ?thesis using assms(2) f1 f2
      by (simp add: handleUserData_allowed[OF assms(1) False])
  qed
qed

text \<open>Once \<^verbatim>\<open>queryParams.Medtronic\<close> is set, the upload ids are not looked up.\<close>

lemma stepUploadIds_skipped:
  "Medtronic queryParams \<Longrightarrow>
   c \<in> set (calls_of (events_of (stepUploadIds E queryParams res start w))) \<Longrightarrow> stage c \<noteq> 6"
  using streamData_stages[of c E queryParams res w] by (auto simp: stepUploadIds_def)

lemma stepMedtronic_skipped:
  assumes "map_of (Query req) ''medtronic'' = None"
    and "HasMedtronicLoopDataAfter E (UserId queryParams) MedtronicLoopBoundaryDate = Inr False"
    and "c \<in> set (calls_of (events_of (stepMedtronic E req queryParams res start w)))"
  shows "stage c \<noteq> 6"
  using assms stepUploadIds_skipped[of "queryParams\<lparr>Medtronic := True\<rparr>" c E res start w]
  by (auto simp: stepMedtronic_def)

lemma stepDexcom_skipped:
  assumes "map_of (Query req) ''medtronic'' = None"
    and "HasMedtronicLoopDataAfter E (UserId queryParams) MedtronicLoopBoundaryDate = Inr False"
    and "c \<in> set (calls_of (events_of (stepDexcom E req queryParams res start w)))"
  shows "stage c \<noteq> 6"
proof (cases "Dexcom queryParams")
  case True
  then show ?thesis using assms stepMedtronic_skipped[of req E queryParams c res start w]
    by (auto simp: stepDexcom_def)
next
  case False
  show ?thesis
  proof (cases "GetDexcomDataSource E (UserId queryParams)")
    case (Inl err)
    then show ?thesis using assms(3) False by (auto simp: stepDexcom_def abort_parts)
  next
    case (Inr src)
    then show ?thesis
      using assms False
        stepMedtronic_skipped[of req E "queryParams\<lparr>DexcomDataSource := src\<rparr>" c res start w]
      by (auto simp: stepDexcom_def)
  qed
qed

lemma stepCarelink_skipped:
  assumes "map_of (Query req) ''medtronic'' = None"
    and "HasMedtronicLoopDataAfter E (UserId queryParams) MedtronicLoopBoundaryDate = Inr False"
    and "c \<in> set (calls_of (events_of (stepCarelink E req queryParams res start w)))"
  shows "stage c \<noteq> 6"
proof (cases "map_of (Query req) ''carelink'' = None")
  case False
  then show ?thesis using assms stepDexcom_skipped[of req E queryParams c res start w]
    by (auto simp: stepCarelink_def)
next
  case True
  show ?thesis
  proof (cases "HasMedtronicDirectData E (UserId queryParams)")
    case (Inl err)
    then show ?thesis using assms(3) True by (auto simp: stepCarelink_def abort_parts)
  next
    case (Inr has)
    then show ?thesis
      using assms True
        stepDexcom_skipped[of req E "queryParams\<lparr>Carelink := True\<rparr>" c res start w]
        stepDexcom_skipped[of req E queryParams c res start w]
      by (auto simp: stepCarelink_def split: if_splits)
  qed
qed

lemma stepCarelink_resolved:
  assumes "f \<in> set (filters_of (calls_of (events_of (stepCarelink E req queryParams res start w))))"
  shows "UserId f = UserId queryParams
       \<and> (map_of (Query req) ''carelink'' = None
            \<and> HasMedtronicDirectData E (UserId queryParams) = Inr False \<longrightarrow> Carelink f)
       \<and> (map_of (Query req) ''medtronic'' = None
            \<and> HasMedtronicLoopDataAfter E (UserId queryParams) MedtronicLoopBoundaryDate = Inr False
          \<longrightarrow> Medtronic f)
       \<and> (\<not> Medtronic f \<longrightarrow>
            GetLoopableMedtronicDirectUploadIdsAfter E (UserId queryParams)
              MedtronicLoopBoundaryDate = Inr (MedtronicUploadIds f)
          \<and> MedtronicDate f = MedtronicLoopBoundaryDate)"
  using assms
  by (auto simp: stepCarelink_filters stepDexcom_filters stepMedtronic_filters
        stepUploadIds_filters split: sum.splits if_splits)

text \<open>A filter with \<^verbatim>\<open>Medtronic\<close> unset reaches the query only through the lookup of the upload ids.\<close>

lemma stepUploadIds_looked:
  assumes "f \<in> set (filters_of (calls_of (events_of (stepUploadIds E queryParams res start w))))"
    and "\<not> Medtronic f"
  shows "Call_GetLoopableMedtronicDirectUploadIdsAfter (UserId queryParams) MedtronicLoopBoundaryDate
           \<in> set (calls_of (events_of (stepUploadIds E queryParams res start w)))"
proof (cases "Medtronic queryParams")
  case True
  then show ?thesis using assms by (simp add: stepUploadIds_filters)
next
  case False
  then show ?thesis by (simp add: stepUploadIds_def)
qed

lemma stepMedtronic_looked:
  assumes "f \<in> set (filters_of (calls_of (events_of (stepMedtronic E req queryParams res start w))))"
    and "\<not> Medtronic f"
  shows "Call_GetLoopableMedtronicDirectUploadIdsAfter (UserId queryParams) MedtronicLoopBoundaryDate
           \<in> set (calls_of (events_of (stepMedtronic E req queryParams res start w)))"
proof (cases "map_of (Query req) ''medtronic'' = None")
  case False
  then show ?thesis using assms stepUploadIds_looked[of f E queryParams res start w]
    by (auto simp: stepMedtronic_def)
next
  case True
  show ?thesis
  proof (cases "HasMedtronicLoopDataAfter E (UserId queryParams) MedtronicLoopBoundaryDate")
    case (Inl err)
    then show ?thesis using assms(1) True by (simp add: stepMedtronic_filters)
  next
    case (Inr has)
    then show ?thesis
      using assms True stepUploadIds_looked[of f E queryParams res start w]
        stepUploadIds_looked[of f E "queryParams\<lparr>Medtronic := True\<rparr>" res start w]
      by (auto simp: stepMedtronic_def split: if_splits)
  qed
qed

lemma stepDexcom_looked:
  assumes "f \<in> set (filters_of (calls_of (events_of (stepDexcom E req queryParams res start w))))"
    and "\<not> Medtronic f"
  shows "Call_GetLoopableMedtronicDirectUploadIdsAfter (UserId queryParams) MedtronicLoopBoundaryDate
           \<in> set (calls_of (events_of (stepDexcom E req queryParams res start w)))"
proof (cases "Dexcom queryParams")
  case True
  then show ?thesis using assms stepMedtronic_looked[of f E req queryParams res start w]
    by (auto simp: stepDexcom_def)
next
  case False
  show ?thesis
  proof (cases "GetDexcomDataSource E (UserId queryParams)")
    case (Inl err)
    then show ?thesis using assms(1) False by (simp add: stepDexcom_filters)
  next
    case (Inr src)
    then show ?thesis
      using assms False
        stepMedtronic_looked[of f E req "queryParams\<lparr>DexcomDataSource := src\<rparr>" res start w]
      by (auto simp: stepDexcom_def)
  qed
qed

lemma stepCarelink_looked:
  assumes "f \<in> set (filters_of (calls_of (events_of (stepCarelink E req queryParams res start w))))"
    and "\<not> Medtronic f"
  shows "Call_GetLoopableMedtronicDirectUploadIdsAfter (UserId queryParams) MedtronicLoopBoundaryDate
           \<in> set (calls_of (events_of (stepCarelink E req queryParams res start w)))"
proof (cases "map_of (Query req) ''carelink'' = None")
  case False
  then show ?thesis using assms stepDexcom_looked[of f E req queryParams res start w]
    by (auto simp: stepCarelink_def)
next
  case True
  show ?thesis
  proof (cases "HasMedtronicDirectData E (UserId queryParams)")
    case (Inl err)
    then show ?thesis using assms(1) True by (simp add: stepCarelink_filters)
  next
    case (Inr has)
    then show ?thesis
      using assms True stepDexcom_looked[of f E req queryParams res start w]
        stepDexcom_looked[of f E req "queryParams\<lparr>Carelink := True\<rparr>" res start w]
      by (auto simp: stepCarelink_def split: if_splits)
  qed
qed

text \<open>
  C4. Let the parameters of a request parse to \<open>queryParams\<close> and let \<open>f\<close> be the filter the
  handler hands to the query. If the \<^verbatim>\<open>carelink\<close> parameter is omitted and the user has no
  Medtronic-direct data, then \<open>f\<close> has \<^verbatim>\<open>Carelink\<close> set. If the \<^verbatim>\<open>medtronic\<close> parameter is
  omitted and the user has no loop data after 2017-09-01, then \<open>f\<close> has \<^verbatim>\<open>Medtronic\<close> set and
  the upload ids are not looked up. If \<open>f\<close> has \<^verbatim>\<open>Medtronic\<close> unset, then the upload ids were
  looked up, \<^verbatim>\<open>MedtronicUploadIds\<close> is what the lookup returned and \<^verbatim>\<open>MedtronicDate\<close> is
  2017-09-01.
\<close>

theorem resolved_filter:
  assumes "GetParams E (Query req) = Inr queryParams"
    and "f \<in> set (filters_of (calls_of (events_of (handleUserData E res req w))))"
  shows "UserId f = UserId queryParams
       \<and> (map_of (Query req) ''carelink'' = None
            \<and> HasMedtronicDirectData E (UserId queryParams) = Inr False \<longrightarrow> Carelink f)
       \<and> (map_of (Query req) ''medtronic'' = None
            \<and> HasMedtronicLoopDataAfter E (UserId queryParams) MedtronicLoopBoundaryDate = Inr False
          \<longrightarrow> Medtronic f
            \<and> (\<forall>u d. Call_GetLoopableMedtronicDirectUploadIdsAfter u d
                        \<notin> set (calls_of (events_of (handleUserData E res req w)))))
       \<and> (\<not> Medtronic f \<longrightarrow>
            GetLoopableMedtronicDirectUploadIdsAfter E (UserId queryParams) ''2017-09-01''
              = Inr (MedtronicUploadIds f)
          \<and> MedtronicDate f = ''2017-09-01''
          \<and> Call_GetLoopableMedtronicDirectUploadIdsAfter (UserId queryParams) ''2017-09-01''
              \<in> set (calls_of (events_of (handleUserData E res req w))))"
proof -
  let ?S = "stepCarelink E req queryParams res (time_Now E (ticks w)) (w\<lparr>ticks := Suc (ticks w)\<rparr>)"
  let ?c1 = "calls_of (snd (resolveToken E req))"
  let ?c2 = "calls_of (snd (denied E (identity E req) queryParams))"
  from handleUserData_filters[OF assms] have
    fS: "f \<in> set (filters_of (calls_of (events_of ?S)))"
    and calls: "calls_of (events_of (handleUserData E res req w)) =
                  Call_GetParams # ?c1 @ ?c2 @ calls_of (events_of ?S)"
    by blast+
  note r = stepCarelink_resolved[OF fS]
  have skip: "\<forall>u d. Call_GetLoopableMedtronicDirectUploadIdsAfter u d
                        \<notin> set (calls_of (events_of (handleUserData E res req w)))"
    if m: "map_of (Query req) ''medtronic'' = None"
      and h: "HasMedtronicLoopDataAfter E (UserId queryParams) MedtronicLoopBoundaryDate = Inr False"
  proof (intro allI notI)
    fix u d
    assume "Call_GetLoopableMedtronicDirectUploadIdsAfter u d
              \<in> set (calls_of (events_of (handleUserData E res req w)))"
    then have "Call_GetLoopableMedtronicDirectUploadIdsAfter u d \<in> set ?c1
             \<or> Call_GetLoopableMedtronicDirectUploadIdsAfter u d \<in> set ?c2
             \<or> Call_GetLoopableMedtronicDirectUploadIdsAfter u d \<in> set (calls_of (events_of ?S))"
      by (auto simp: calls)
    then show False
      using resolveToken_calls[of "Call_GetLoopableMedtronicDirectUploadIdsAfter u d" E req]
        denied_calls[of "Call_GetLoopableMedtronicDirectUploadIdsAfter u d" E "identity E req"
          queryParams]
        stepCarelink_skipped[OF m h, of "Call_GetLoopableMedtronicDirectUploadIdsAfter u d" res
          "time_Now E (ticks w)" "w\<lparr>ticks := Suc (ticks w)\<rparr>"]
      by auto
  qed
  have looked: "Call_GetLoopableMedtronicDirectUploadIdsAfter (UserId queryParams) ''2017-09-01''
              \<in> set (calls_of (events_of (handleUserData E res req w)))"
    if "\<not> Medtronic f"
    using stepCarelink_looked[OF fS that] by (simp add: calls MedtronicLoopBoundaryDate_def)
  show ?thesis using r skip looked by (auto simp: MedtronicLoopBoundaryDate_def)
qed

text \<open>
  \<open>A\<close> reading their own data, without and with loop-integrated data after the boundary.
\<close>

theorem resolved_filter_witness:
  "\<lparr>UserId = ''A'', Types = [], SubTypes = [], StartDate = None, EndDate = None,
     Carelink = True, Dexcom = False, DexcomDataSource = None, Medtronic = True,
     MedtronicDate = '''', MedtronicUploadIds = []\<rparr>
     \<in> set (filters_of (calls_of (events_of
           (handleUserData ex_env new_response ex_req_A_by_A ex_world))))
   \<and> (\<forall>u d. Call_GetLoopableMedtronicDirectUploadIdsAfter u d
         \<notin> set (calls_of (events_of (handleUserData ex_env new_response ex_req_A_by_A ex_world))))
   \<and> \<lparr>UserId = ''A'', Types = [], SubTypes = [], StartDate = None, EndDate = None,
       Carelink = True, Dexcom = False, DexcomDataSource = None, Medtronic = False,
       MedtronicDate = ''2017-09-01'', MedtronicUploadIds = [''upload-1'']\<rparr>
     \<in> set (filters_of (calls_of (events_of
           (handleUserData ex_env_loop new_response ex_req_A_by_A ex_world))))
   \<and> Call_GetLoopableMedtronicDirectUploadIdsAfter ''A'' ''2017-09-01''
       \<in> set (calls_of (events_of (handleUserData ex_env_loop new_response ex_req_A_by_A ex_world)))"
proof -
  let ?p = "\<lparr>UserId = ''A'', Types = [], SubTypes = [], StartDate = None, EndDate = None,
       Carelink = False, Dexcom = False, DexcomDataSource = None, Medtronic = False,
       MedtronicDate = '''', MedtronicUploadIds = []\<rparr>"
  let ?f1 = "\<lparr>UserId = ''A'', Types = [], SubTypes = [], StartDate = None, EndDate = None,
     Carelink = True, Dexcom = False, DexcomDataSource = None, Medtronic = True,
     MedtronicDate = '''', MedtronicUploadIds = []\<rparr>"
  let ?f2 = "\<lparr>UserId = ''A'', Types = [], SubTypes = [], StartDate = None, EndDate = None,
       Carelink = True, Dexcom = False, DexcomDataSource = None, Medtronic = False,
       MedtronicDate = ''2017-09-01'', MedtronicUploadIds = [''upload-1'']\<rparr>"
  have p1: "GetParams ex_env (Query ex_req_A_by_A) = Inr ?p"
    by (simp add: ex_env_def ex_req_A_by_A_def GetParams_spec_def dateBound_def
          inclusionSet_def Get_def flag_def)
  have p2: "GetParams ex_env_loop (Query ex_req_A_by_A) = Inr ?p"
    by (simp add: ex_env_loop_def ex_env_def ex_req_A_by_A_def GetParams_spec_def dateBound_def
          inclusionSet_def Get_def flag_def)
  have m1: "?f1 \<in> set (filters_of (calls_of (events_of
           (handleUserData ex_env new_response ex_req_A_by_A ex_world))))"
    by code_simp
  have m2: "?f2 \<in> set (filters_of (calls_of (events_of
           (handleUserData ex_env_loop new_response ex_req_A_by_A ex_world))))"
    by code_simp
  have q: "map_of (Query ex_req_A_by_A) ''medtronic'' = None"
    by (simp add: ex_req_A_by_A_def)
  have l: "HasMedtronicLoopDataAfter ex_env ''A'' MedtronicLoopBoundaryDate = Inr False"
    by (simp add: ex_env_def)
  have a: "\<forall>u d. Call_GetLoopableMedtronicDirectUploadIdsAfter u d
         \<notin> set (calls_of (events_of (handleUserData ex_env new_response ex_req_A_by_A ex_world)))"
    using resolved_filter[OF p1 m1] q l by simp
  have b: "Call_GetLoopableMedtronicDirectUploadIdsAfter ''A'' ''2017-09-01''
       \<in> set (calls_of (events_of (handleUserData ex_env_loop new_response ex_req_A_by_A ex_world)))"
    using resolved_filter[OF p2 m2] by simp
  show ?thesis using m1 m2 a b by blast
qed

section \<open>C6: a malformed date\<close>

lemma malformed_fails:
  "malformed parseTime q ''startDate'' \<or> malformed parseTime q ''endDate'' \<Longrightarrow>
   \<exists>e. GetParams_spec parseTime q = Inl e"
  by (auto simp: malformed_def GetParams_spec_def dateBound_def split: option.splits sum.splits)

text \<open>
  C6. When \<^verbatim>\<open>store.GetParams\<close> parses as specified, every request whose \<^verbatim>\<open>startDate\<close> or
  \<^verbatim>\<open>endDate\<close> is given and is not an ISO-8601 timestamp is answered with the envelope of
  \<^verbatim>\<open>error_invalid_parameters\<close>: code \<^verbatim>\<open>invalid_parameters\<close> under the server-error status
  500. No data is read.
\<close>

theorem malformed_date_is_server_error:
  assumes "GetParams E = GetParams_spec parseTime"
    and "malformed parseTime (Query req) ''startDate'' \<or> malformed parseTime (Query req) ''endDate''"
    and "statusCode res = None"
  shows "response_of (handleUserData E res req w) =
           envelope E res (error_invalid_parameters (errs w)) (uuid_NewV4 E (uuids w))
       \<and> (errs w = initial_catalog \<longrightarrow>
            statusCode (response_of (handleUserData E res req w)) = Some 500
          \<and> body (response_of (handleUserData E res req w)) =
              body res @ marshal_detailedError E
                \<lparr>Status = 500, Id' = uuid_NewV4 E (uuids w), Code = ''invalid_parameters'',
                 Message = ''one or more parameters are invalid'', InternalMessage = ''''\<rparr>)
       \<and> \<not> acquired (events_of (handleUserData E res req w))"
proof -
  from malformed_fails[OF assms(2)] obtain e where "GetParams E (Query req) = Inl e"
    using assms(1) by auto
  note h = handleUserData_parse_error[OF this assms(3), of w]
  show ?thesis
    by (simp add: h envelope_def initial_catalog_def mkError_def acquired_def
          http_StatusInternalServerError_def)
qed

text \<open>\<^verbatim>\<open>GET /A?startDate=not-a-date\<close> with the session of \<open>A\<close>.\<close>

theorem malformed_date_is_server_error_witness:
  "malformed ex_parseTime (Query ex_req_bad_date_by_A) ''startDate''
   \<and> statusCode (response_of (handleUserData ex_env new_response ex_req_bad_date_by_A ex_world))
       = Some 500
   \<and> body (response_of (handleUserData ex_env new_response ex_req_bad_date_by_A ex_world)) =
       ''{\"status\":500,\"id\":\"u\",\"code\":\"invalid_parameters\",\"message\":\"one or more parameters are invalid\"}''"
proof -
  have g: "GetParams ex_env = GetParams_spec ex_parseTime" by (simp add: ex_env_def)
  have m: "malformed ex_parseTime (Query ex_req_bad_date_by_A) ''startDate''"
    by (simp add: malformed_def ex_req_bad_date_by_A_def ex_parseTime_def Get_def)
  have n: "statusCode new_response = None" by (simp add: new_response_def)
  have w: "errs ex_world = initial_catalog" by (simp add: ex_world_def)
  have u: "uuid_NewV4 ex_env (uuids ex_world) = ''u''" by (simp add: ex_env_def ex_world_def)
  have k: "body new_response @ marshal_detailedError ex_env
             \<lparr>Status = 500, Id' = ''u'', Code = ''invalid_parameters'',
              Message = ''one or more parameters are invalid'', InternalMessage = ''''\<rparr> =
       ''{\"status\":500,\"id\":\"u\",\"code\":\"invalid_parameters\",\"message\":\"one or more parameters are invalid\"}''"
    by code_simp
  note t = malformed_date_is_server_error[OF g disjI1[OF m] n, of ex_world]
  show ?thesis
    using t[THEN conjunct2, THEN conjunct1, rule_format, OF w] m u k by simp
qed

section \<open>How a request ends\<close>

lemma error_ids_append [simp]: "error_ids (xs @ ys) = error_ids xs @ error_ids ys"
  by (induction xs rule: error_ids.induct) simp_all

lemma error_ids_calls [simp]: "error_ids (map Call cs) = []"
  by (induction cs) simp_all

lemma drain_error_ids: "error_ids (snd (snd (snd (drain E it n res)))) = []"
proof (induction it arbitrary: n res)
  case Nil
  show ?case by simp
next
  case (Cons f rest)
  show ?case
  proof (cases f)
    case Panics
    show ?thesis unfolding Panics by simp
  next
    case (Doc d)
    show ?thesis
    proof (cases "len d > 0")
      case False
      obtain out m res' evs where r: "drain E rest n res = (out, m, res', evs)"
        by (cases "drain E rest n res")
      from Cons[of n res] r have "error_ids evs = []" by simp
      then show ?thesis using False drain_empty_doc[OF _ r, of d] Doc by simp
    next
      case True
      show ?thesis
      proof (cases "json_Marshal E d")
        case (Inl err)
        obtain out m res' evs where r: "drain E rest n res = (out, m, res', evs)"
          by (cases "drain E rest n res")
        from Cons[of n res] r have "error_ids evs = []" by simp
        then show ?thesis using drain_failed_doc[OF True Inl r] Doc by simp
      next
        case (Inr bytes)
        define res3 where "res3 = Write bytes (Write [CHR 0x0A]
           (if n > 0 then Write '','' res else res))"
        obtain out m res' evs where r: "drain E rest (Suc n) res3 = (out, m, res', evs)"
          by (cases "drain E rest (Suc n) res3")
        from Cons[of "Suc n" res3] r have "error_ids evs = []" by simp
        then show ?thesis using drain_written_doc[OF True Inr r[unfolded res3_def]] Doc by simp
      qed
    qed
  qed
qed

lemma processResults_error_ids: "error_ids (events_of (processResults E res it start w)) = []"
proof -
  define res2 where "res2 = Write ''['' (Header_Add ''Content-Type'' ''application/json'' res)"
  obtain out n res3 evs where d: "drain E it 0 res2 = (out, n, res3, evs)"
    by (cases "drain E it 0 res2")
  from drain_error_ids[of E it 0 res2] d have e: "error_ids evs = []" by simp
  show ?thesis
    unfolding processResults_def now_def Let_def res2_def[symmetric]
    by (cases out) (simp_all add: d e)
qed

lemma streamData_world:
  "error_ids (events_of (streamData E queryParams res w)) = []
   \<and> errs (world_of (streamData E queryParams res w)) = errs w
   \<and> uuids (world_of (streamData E queryParams res w)) = uuids w"
proof -
  let ?P = "processResults E res (GetDeviceData E queryParams) (time_Now E (ticks w))
          (w\<lparr>ticks := Suc (ticks w)\<rparr>)"
  obtain out res' evs w2 where p: "?P = (out, res', evs, w2)" by (cases ?P)
  have "error_ids evs = []" using processResults_error_ids[of E res "GetDeviceData E queryParams"
      "time_Now E (ticks w)" "w\<lparr>ticks := Suc (ticks w)\<rparr>"] p by simp
  moreover have "errs w2 = errs w" using processResults_errs[of E res "GetDeviceData E queryParams"
      "time_Now E (ticks w)" "w\<lparr>ticks := Suc (ticks w)\<rparr>"] p by simp
  moreover have "uuids w2 = uuids w" using processResults_uuids[of E res "GetDeviceData E queryParams"
      "time_Now E (ticks w)" "w\<lparr>ticks := Suc (ticks w)\<rparr>"] p by simp
  ultimately show ?thesis by (simp add: streamData_def now_def Let_def p)
qed

lemma resolveToken_error_ids: "error_ids (snd (resolveToken E req)) = []"
  by (auto simp: resolveToken_def Let_def split: option.splits prod.splits)

lemma denied_error_ids: "error_ids (snd (denied E td queryParams)) = []"
  by (auto simp: denied_def userCanViewData_def split: option.splits sum.splits)

lemma lookup_cause_error_ids: "lookup_cause E c = Some cause \<Longrightarrow> error_ids [Log cause] = []"
  by (cases c) (auto split: sum.splits)

text \<open>
  A request ends in one of two ways: through \<^verbatim>\<open>jsonError\<close> with one of three errors of the
  catalog, before any cursor is acquired; or with the query and the streaming.
\<close>

lemma handleUserData_ends:
  "(\<exists>pre err. handleUserData E res req w =
        after pre (abort E res err (time_Now E (ticks w)) (w\<lparr>ticks := Suc (ticks w)\<rparr>))
      \<and> err \<in> {error_invalid_parameters (errs w), error_no_view_permisson (errs w),
                error_running_query (errs w)}
      \<and> error_ids pre = [] \<and> filters_of (calls_of pre) = [])
   \<or> (\<exists>pre f. handleUserData E res req w =
        after pre (streamData E f res (w\<lparr>ticks := Suc (ticks w)\<rparr>))
      \<and> error_ids pre = [])"
proof (cases "GetParams E (Query req)")
  case (Inl e)
  have "handleUserData E res req w =
        after [Call Call_GetParams, Log (LogParseError e)]
          (abort E res (error_invalid_parameters (errs w)) (time_Now E (ticks w))
             (w\<lparr>ticks := Suc (ticks w)\<rparr>))
      \<and> error_ids [Call Call_GetParams, Log (LogParseError e)] = []
      \<and> filters_of (calls_of [Call Call_GetParams, Log (LogParseError e)]) = []"
    by (simp add: handleUserData_unparsed[OF Inl])
  then show ?thesis by blast
next
  case (Inr queryParams)
  let ?pre = "Call Call_GetParams # snd (resolveToken E req) @
                snd (denied E (identity E req) queryParams)"
  have f1: "filters_of (calls_of (snd (resolveToken E req))) = []"
    using resolveToken_calls[of _ E req] by (intro no_filters) auto
  have f2: "filters_of (calls_of (snd (denied E (identity E req) queryParams))) = []"
    using denied_calls[of _ E "identity E req" queryParams] by (intro no_filters) auto
  have e: "error_ids ?pre = []" by (simp add: resolveToken_error_ids denied_error_ids)
  have f: "filters_of (calls_of ?pre) = []" using f1 f2 by simp
  show ?thesis
  proof (cases "not_permitted E (identity E req) (UserId queryParams)")
    case True
    show ?thesis using handleUserData_refused[OF Inr True, of res w] e f by blast
  next
    case False
    let ?w1 = "w\<lparr>ticks := Suc (ticks w)\<rparr>"
    let ?start = "time_Now E (ticks w)"
    let ?S = "stepCarelink E req queryParams res ?start ?w1"
    note h = handleUserData_allowed[OF Inr False, of res w]
    from stepCarelink_shape[of E res ?w1 req queryParams ?start]
    obtain cs where l: "lookups_from 3 cs"
      and c: "(\<exists>f. ends_in_query E res ?w1 cs f ?S) \<or> ends_in_store_error E res ?start ?w1 cs ?S"
      by blast
    have fcs: "filters_of cs = []"
      using lookups_from_bounds[OF l] by (intro no_filters) fastforce
    from c show ?thesis
    proof
      assume "\<exists>f. ends_in_query E res ?w1 cs f ?S"
      then obtain g where "?S = after (map Call cs) (streamData E g res ?w1)"
        by (auto simp: ends_in_query_def)
      then have "handleUserData E res req w = after (?pre @ map Call cs) (streamData E g res ?w1)
               \<and> error_ids (?pre @ map Call cs) = []"
        using h e by (simp add: after_after)
      then show ?thesis by blast
    next
      assume "ends_in_store_error E res ?start ?w1 cs ?S"
      then obtain cause where lc: "lookup_cause E (last cs) = Some cause"
        and S: "?S = after (map Call cs @ [Log cause])
                      (abort E res (error_running_query (errs w)) ?start ?w1)"
        by (auto simp: ends_in_store_error_def)
      have "handleUserData E res req w =
              after (?pre @ map Call cs @ [Log cause])
                (abort E res (error_running_query (errs w)) ?start ?w1)
          \<and> error_ids (?pre @ map Call cs @ [Log cause]) = []
          \<and> filters_of (calls_of (?pre @ map Call cs @ [Log cause])) = []"
        using h S e f fcs lookup_cause_error_ids[OF lc]
        by (simp add: after_after)
      then show ?thesis by blast
    qed
  qed
qed

section \<open>The state a request leaves\<close>

lemma acquired_append: "acquired (xs @ ys) = (acquired xs \<or> acquired ys)"
  by (simp add: acquired_def)

lemma acquired_abort: "\<not> acquired (events_of (abort E res err start w))"
  by (simp add: acquired_def abort_parts)

lemma acquired_streamData: "acquired (events_of (streamData E f res w))"
  by (simp add: acquired_def streamData_filters)

lemma handleUserData_world:
  "errs (world_of (handleUserData E res req w)) = errs w
   \<and> (if acquired (events_of (handleUserData E res req w))
      then error_ids (events_of (handleUserData E res req w)) = []
         \<and> uuids (world_of (handleUserData E res req w)) = uuids w
      else error_ids (events_of (handleUserData E res req w)) = [uuid_NewV4 E (uuids w)]
         \<and> uuids (world_of (handleUserData E res req w)) = Suc (uuids w))"
proof -
  from handleUserData_ends[of E res req w] show ?thesis
  proof (elim disjE exE conjE)
    fix pre err
    assume h: "handleUserData E res req w =
        after pre (abort E res err (time_Now E (ticks w)) (w\<lparr>ticks := Suc (ticks w)\<rparr>))"
      and "error_ids pre = []" and "filters_of (calls_of pre) = []"
    then show ?thesis using acquired_abort[of E res err "time_Now E (ticks w)" "w\<lparr>ticks := Suc (ticks w)\<rparr>"]
      by (simp add: acquired_append abort_parts) (simp add: acquired_def)
  next
    fix pre f
    assume h: "handleUserData E res req w =
        after pre (streamData E f res (w\<lparr>ticks := Suc (ticks w)\<rparr>))"
      and "error_ids pre = []"
    then show ?thesis
      using streamData_world[of E f res "w\<lparr>ticks := Suc (ticks w)\<rparr>"]
      by (simp add: acquired_append acquired_streamData)
  qed
qed

lemma handleUserData_failure:
  assumes "statusCode res = None"
    and "\<not> acquired (events_of (handleUserData E res req w))"
  shows "\<exists>err \<in> {error_invalid_parameters (errs w), error_no_view_permisson (errs w),
                 error_running_query (errs w)}.
           response_of (handleUserData E res req w) = envelope E res err (uuid_NewV4 E (uuids w))
         \<and> LogJsonError (uuid_NewV4 E (uuids w)) (Code err)
             (time_Now E (Suc (ticks w)) - time_Now E (ticks w)) (Message err) (InternalMessage err)
             \<in> set (logs_of (events_of (handleUserData E res req w)))"
proof -
  from handleUserData_ends[of E res req w] show ?thesis
  proof (elim disjE exE conjE)
    fix pre err
    assume h: "handleUserData E res req w =
        after pre (abort E res err (time_Now E (ticks w)) (w\<lparr>ticks := Suc (ticks w)\<rparr>))"
      and e: "err \<in> {error_invalid_parameters (errs w), error_no_view_permisson (errs w),
                error_running_query (errs w)}"
    have "response_of (handleUserData E res req w) = envelope E res err (uuid_NewV4 E (uuids w))
         \<and> LogJsonError (uuid_NewV4 E (uuids w)) (Code err)
             (time_Now E (Suc (ticks w)) - time_Now E (ticks w)) (Message err) (InternalMessage err)
             \<in> set (logs_of (events_of (handleUserData E res req w)))"
      by (simp add: h abort_fresh[OF assms(1)])
    then show ?thesis using e by blast
  next
    fix pre f
    assume h: "handleUserData E res req w =
        after pre (streamData E f res (w\<lparr>ticks := Suc (ticks w)\<rparr>))"
    then have "acquired (events_of (handleUserData E res req w))"
      by (simp add: acquired_append acquired_streamData)
    then show ?thesis using assms(2) by simp
  qed
qed

lemma handleStatus_world:
  "errs (world_of (handleStatus E res w)) = errs w
   \<and> (case Ping E of
        None \<Rightarrow> error_ids (events_of (handleStatus E res w)) = []
               \<and> uuids (world_of (handleStatus E res w)) = uuids w
      | Some e \<Rightarrow> error_ids (events_of (handleStatus E res w)) = [uuid_NewV4 E (uuids w)]
               \<and> uuids (world_of (handleStatus E res w)) = Suc (uuids w))"
  by (simp add: handleStatus_def now_def abort_parts split: option.splits)

lemma envelope_InternalMessage:
  "envelope E res (err\<lparr>InternalMessage := m\<rparr>) u = envelope E res err u"
  by (simp add: envelope_def marshal_detailedError_def)

lemma handleStatus_failure:
  assumes "statusCode res = None" and "Ping E = Some e"
  shows "response_of (handleStatus E res w) =
           envelope E res (error_status_check (errs w)) (uuid_NewV4 E (uuids w))
       \<and> LogJsonError (uuid_NewV4 E (uuids w)) (Code (error_status_check (errs w)))
             (time_Now E (Suc (ticks w)) - time_Now E (ticks w))
             (Message (error_status_check (errs w))) (Error_msg e)
             \<in> set (logs_of (events_of (handleStatus E res w)))"
  using assms
  by (simp add: handleStatus_def now_def abort_fresh setInternalMessage_def
        envelope_InternalMessage)

text \<open>The identifiers a request reports are the draws it takes from the generator.\<close>

lemma handle_ids:
  "errs (world_of (handle E r w)) = errs w
   \<and> uuids w \<le> uuids (world_of (handle E r w))
   \<and> error_ids (events_of (handle E r w)) =
       map (uuid_NewV4 E) [uuids w ..< uuids (world_of (handle E r w))]"
proof (cases r)
  case GET_status
  show ?thesis
    using handleStatus_world[of E new_response w]
    by (cases "Ping E") (simp_all add: handle_def GET_status)
next
  case (GET_userID req)
  show ?thesis
    using handleUserData_world[of E new_response req w]
    by (cases "acquired (events_of (handleUserData E new_response req w))")
       (simp_all add: handle_def GET_userID)
qed

lemma serve_ids:
  "errs (snd (serve rs w)) = errs w
   \<and> uuids w \<le> uuids (snd (serve rs w))
   \<and> ((\<forall>(E, r) \<in> set rs. uuid_NewV4 E = g) \<longrightarrow>
        served_ids (fst (serve rs w)) = map g [uuids w ..< uuids (snd (serve rs w))])"
proof (induction rs arbitrary: w)
  case Nil
  show ?case by (simp add: served_ids_def)
next
  case (Cons a rs)
  obtain E r where a: "a = (E, r)" by (cases a)
  obtain out res evs w' where h: "handle E r w = (out, res, evs, w')" by (cases "handle E r w")
  obtain xs w'' where s: "serve rs w' = (xs, w'')" by (cases "serve rs w'")
  from handle_ids[of E r w] h have
    h1: "errs w' = errs w" and h2: "uuids w \<le> uuids w'"
    and h3: "error_ids evs = map (uuid_NewV4 E) [uuids w ..< uuids w']" by simp_all
  from Cons[of w'] s have
    s1: "errs w'' = errs w'" and s2: "uuids w' \<le> uuids w''"
    and s3: "(\<forall>(E, r) \<in> set rs. uuid_NewV4 E = g) \<longrightarrow>
               served_ids xs = map g [uuids w' ..< uuids w'']" by simp_all
  have u: "[uuids w ..< uuids w''] = [uuids w ..< uuids w'] @ [uuids w' ..< uuids w'']"
    using h2 s2 by (metis le_Suc_ex upt_add_eq_append)
  show ?case
    using h1 h2 h3 s1 s2 s3 u by (simp add: a h s served_ids_def)
qed

section \<open>C9: the error reporter\<close>

text \<open>
  C9. Every failure reported before streaming (a data request that ends without acquiring a
  cursor, a failed status check) is answered with the envelope of a catalog error whose
  \<^verbatim>\<open>Id\<close> is the identifier drawn for this occurrence, and the log has the line with this
  identifier, the code, the time elapsed since the start of the request, the user-safe
  message and the internal message. The envelope does not depend on \<^verbatim>\<open>InternalMessage\<close>:
  the cause of a failed status check is in the log line and not in the response. Every
  report draws one new identifier, so the identifiers reported while any sequence of
  requests is served are pairwise distinct, as long as the generator does not repeat
  itself.
\<close>

theorem error_reporting:
  "(statusCode res = None \<and> \<not> acquired (events_of (handleUserData E res req w)) \<longrightarrow>
      (\<exists>err \<in> {error_invalid_parameters (errs w), error_no_view_permisson (errs w),
                 error_running_query (errs w)}.
           response_of (handleUserData E res req w) = envelope E res err (uuid_NewV4 E (uuids w))
         \<and> LogJsonError (uuid_NewV4 E (uuids w)) (Code err)
             (time_Now E (Suc (ticks w)) - time_Now E (ticks w)) (Message err) (InternalMessage err)
             \<in> set (logs_of (events_of (handleUserData E res req w))))
      \<and> error_ids (events_of (handleUserData E res req w)) = [uuid_NewV4 E (uuids w)]
      \<and> uuids (world_of (handleUserData E res req w)) = Suc (uuids w))
 \<and> (statusCode res = None \<and> Ping E = Some e \<longrightarrow>
       response_of (handleStatus E res w) =
         envelope E res (error_status_check (errs w)) (uuid_NewV4 E (uuids w))
     \<and> LogJsonError (uuid_NewV4 E (uuids w)) (Code (error_status_check (errs w)))
          (time_Now E (Suc (ticks w)) - time_Now E (ticks w))
          (Message (error_status_check (errs w))) (Error_msg e)
          \<in> set (logs_of (events_of (handleStatus E res w)))
     \<and> error_ids (events_of (handleStatus E res w)) = [uuid_NewV4 E (uuids w)]
     \<and> uuids (world_of (handleStatus E res w)) = Suc (uuids w))
 \<and> envelope E res (err\<lparr>InternalMessage := m\<rparr>) u = envelope E res err u
 \<and> Id' (err\<lparr>Id' := u\<rparr>) = u
 \<and> ((\<forall>(E, r) \<in> set rs. uuid_NewV4 E = g) \<and> inj g \<longrightarrow>
       distinct (served_ids (fst (serve rs w))))"
proof (intro conjI impI)
  assume a: "statusCode res = None \<and> \<not> acquired (events_of (handleUserData E res req w))"
  then show "\<exists>err \<in> {error_invalid_parameters (errs w), error_no_view_permisson (errs w),
                 error_running_query (errs w)}.
           response_of (handleUserData E res req w) = envelope E res err (uuid_NewV4 E (uuids w))
         \<and> LogJsonError (uuid_NewV4 E (uuids w)) (Code err)
             (time_Now E (Suc (ticks w)) - time_Now E (ticks w)) (Message err) (InternalMessage err)
             \<in> set (logs_of (events_of (handleUserData E res req w)))"
    using handleUserData_failure[of res E req w] by blast
  show "error_ids (events_of (handleUserData E res req w)) = [uuid_NewV4 E (uuids w)]"
    using a handleUserData_world[of E res req w] by simp
  show "uuids (world_of (handleUserData E res req w)) = Suc (uuids w)"
    using a handleUserData_world[of E res req w] by simp
next
  assume a: "statusCode res = None \<and> Ping E = Some e"
  show "response_of (handleStatus E res w) =
         envelope E res (error_status_check (errs w)) (uuid_NewV4 E (uuids w))"
    using a handleStatus_failure[of res E e w] by blast
  show "LogJsonError (uuid_NewV4 E (uuids w)) (Code (error_status_check (errs w)))
          (time_Now E (Suc (ticks w)) - time_Now E (ticks w))
          (Message (error_status_check (errs w))) (Error_msg e)
          \<in> set (logs_of (events_of (handleStatus E res w)))"
    using a handleStatus_failure[of res E e w] by blast
  show "error_ids (events_of (handleStatus E res w)) = [uuid_NewV4 E (uuids w)]"
    using a handleStatus_world[of E res w] by simp
  show "uuids (world_of (handleStatus E res w)) = Suc (uuids w)"
    using a handleStatus_world[of E res w] by simp
next
  show "envelope E res (err\<lparr>InternalMessage := m\<rparr>) u = envelope E res err u"
    by (rule envelope_InternalMessage)
  show "Id' (err\<lparr>Id' := u\<rparr>) = u" by simp
next
  assume a: "(\<forall>(E, r) \<in> set rs. uuid_NewV4 E = g) \<and> inj g"
  then have "served_ids (fst (serve rs w)) = map g [uuids w ..< uuids (snd (serve rs w))]"
    using serve_ids[of rs w g] by blast
  then show "distinct (served_ids (fst (serve rs w)))"
    using a by (simp add: distinct_map inj_on_def inj_def)
qed

text \<open>
  A denied request; a failed status check; and three failing requests served in a row.
\<close>

theorem error_reporting_witness:
  "\<not> acquired (events_of (handleUserData ex_env new_response ex_req_B_by_A ex_world))
   \<and> error_ids (events_of (handleUserData ex_env new_response ex_req_B_by_A ex_world)) = [''u'']
   \<and> Ping ex_env_ping = Some (Error ''no reachable servers'')
   \<and> response_of (handleStatus ex_env_ping new_response ex_world) =
       envelope ex_env_ping new_response (error_status_check initial_catalog) ''u''
   \<and> LogJsonError ''u'' ''data_status_check'' 1
        ''checking of the status endpoint showed an error'' ''no reachable servers''
       \<in> set (logs_of (events_of (handleStatus ex_env_ping new_response ex_world)))
   \<and> inj (\<lambda>n. replicate (Suc n) CHR ''u'')
   \<and> distinct (served_ids (fst (serve
        [(ex_env_ping, GET_status), (ex_env, GET_userID ex_req_B_by_A),
         (ex_env, GET_userID ex_req_bad_date_by_A)] ex_world)))"
proof -
  have n: "statusCode new_response = None" by (simp add: new_response_def)
  have a: "\<not> acquired (events_of (handleUserData ex_env new_response ex_req_B_by_A ex_world))"
    by code_simp
  have p: "Ping ex_env_ping = Some (Error ''no reachable servers'')"
    by (simp add: ex_env_ping_def)
  have u: "uuid_NewV4 ex_env (uuids ex_world) = ''u''"
          "uuid_NewV4 ex_env_ping (uuids ex_world) = ''u''"
    by (simp_all add: ex_env_def ex_env_ping_def ex_world_def)
  have c: "errs ex_world = initial_catalog" by (simp add: ex_world_def)
  have t: "time_Now ex_env_ping (Suc (ticks ex_world)) - time_Now ex_env_ping (ticks ex_world) = 1"
    by (simp add: ex_env_def ex_env_ping_def ex_world_def)
  have k: "Code (error_status_check initial_catalog) = ''data_status_check''"
          "Message (error_status_check initial_catalog) =
             ''checking of the status endpoint showed an error''"
    by (simp_all add: initial_catalog_def mkError_def)
  have g: "\<forall>(E, r) \<in> set [(ex_env_ping, GET_status), (ex_env, GET_userID ex_req_B_by_A),
         (ex_env, GET_userID ex_req_bad_date_by_A)].
           uuid_NewV4 E = (\<lambda>n. replicate (Suc n) CHR ''u'')"
    by (simp add: ex_env_def ex_env_ping_def)
  have i: "inj (\<lambda>n. replicate (Suc n) CHR ''u'')"
  proof (rule injI)
    fix x y :: nat
    assume "replicate (Suc x) CHR ''u'' = replicate (Suc y) CHR ''u''"
    then have "length (replicate (Suc x) CHR ''u'') = length (replicate (Suc y) CHR ''u'')"
      by (rule arg_cong)
    then show "x = y" by simp
  qed
  note e1 = mp[OF error_reporting[THEN conjunct1] conjI[OF n a]]
  note e2 = mp[OF error_reporting[THEN conjunct2, THEN conjunct1] conjI[OF n p], of ex_world]
  note e3 = mp[OF error_reporting[THEN conjunct2, THEN conjunct2, THEN conjunct2, THEN conjunct2]
               conjI[OF g i], of ex_world]
  have r1: "error_ids (events_of (handleUserData ex_env new_response ex_req_B_by_A ex_world)) = [''u'']"
    using e1 u by simp
  have r2: "response_of (handleStatus ex_env_ping new_response ex_world) =
       envelope ex_env_ping new_response (error_status_check initial_catalog) ''u''"
    using e2 u c by simp
  have r3: "LogJsonError ''u'' ''data_status_check'' 1
        ''checking of the status endpoint showed an error'' ''no reachable servers''
       \<in> set (logs_of (events_of (handleStatus ex_env_ping new_response ex_world)))"
    using e2 u c t k by simp
  have r4: "distinct (served_ids (fst (serve
        [(ex_env_ping, GET_status), (ex_env, GET_userID ex_req_B_by_A),
         (ex_env, GET_userID ex_req_bad_date_by_A)] ex_world)))"
    by (rule e3)
  show ?thesis using a r1 p r2 r3 i r4 by blast
qed

section \<open>C10: the error catalog is read-only\<close>

text \<open>
  An instruction that is confined to its goroutine leaves the shared variables and the
  variables of the other goroutines as they are, and does the same in two stores that agree
  on the shared variables and on the variables of its goroutine.
\<close>

lemma exec_private_global:
  "confined t i \<Longrightarrow> fst (exec t i \<sigma>) (Global g) = \<sigma> (Global g)"
  by (cases i) auto

lemma exec_private_other:
  "confined t i \<Longrightarrow> t' \<noteq> t \<Longrightarrow> fst (exec t i \<sigma>) (Local t' x) = \<sigma> (Local t' x)"
  by (cases i) auto

lemma exec_observer: "ob \<in> set (snd (exec t i \<sigma>)) \<Longrightarrow> fst ob = t"
  by (cases i) (auto split: option.splits)

lemma readable_same:
  "readable t a \<Longrightarrow> \<forall>g. \<sigma> (Global g) = \<sigma>' (Global g) \<Longrightarrow>
   \<forall>x. \<sigma> (Local t x) = \<sigma>' (Local t x) \<Longrightarrow> \<sigma> a = \<sigma>' a"
  by (cases a) auto

lemma owned_readable: "owned t a \<Longrightarrow> readable t a"
  by (cases a) auto

lemma exec_private_view:
  assumes "confined t i"
    and "\<forall>g. \<sigma> (Global g) = \<sigma>' (Global g)"
    and "\<forall>x. \<sigma> (Local t x) = \<sigma>' (Local t x)"
  shows "snd (exec t i \<sigma>) = snd (exec t i \<sigma>')
       \<and> (\<forall>x. fst (exec t i \<sigma>) (Local t x) = fst (exec t i \<sigma>') (Local t x))"
proof (cases i)
  case (Copy dst src)
  then have "\<sigma> src = \<sigma>' src" using assms readable_same[of t src \<sigma> \<sigma>'] by simp
  then show ?thesis using Copy assms(3) by simp
next
  case (SetId a u)
  then have "\<sigma> a = \<sigma>' a" using assms readable_same[of t a \<sigma> \<sigma>'] owned_readable by simp
  then show ?thesis using SetId assms(3) by simp
next
  case (SetInternalMessage a m)
  then have "\<sigma> a = \<sigma>' a" using assms readable_same[of t a \<sigma> \<sigma>'] owned_readable by simp
  then show ?thesis using SetInternalMessage assms(3) by simp
next
  case (Report a)
  then have "\<sigma> a = \<sigma>' a" using assms readable_same[of t a \<sigma> \<sigma>'] by simp
  then show ?thesis using Report assms(3) by simp
qed

text \<open>A goroutine running alone.\<close>

lemma run_alone_Cons:
  "run_alone t (i # rest) \<sigma> =
     (fst (run_alone t rest (fst (exec t i \<sigma>))),
      snd (exec t i \<sigma>) @ snd (run_alone t rest (fst (exec t i \<sigma>))))"
  by (simp split: prod.splits)

lemma run_alone_append:
  "run_alone t (xs @ ys) \<sigma> =
     (fst (run_alone t ys (fst (run_alone t xs \<sigma>))),
      snd (run_alone t xs \<sigma>) @ snd (run_alone t ys (fst (run_alone t xs \<sigma>))))"
proof (induction xs arbitrary: \<sigma>)
  case Nil
  show ?case by simp
next
  case (Cons i xs)
  show ?case
    unfolding append_Cons run_alone_Cons[of t i] Cons[of "fst (exec t i \<sigma>)"] by simp
qed

lemma run_alone_global:
  "\<forall>i \<in> set xs. confined t i \<Longrightarrow> fst (run_alone t xs \<sigma>) (Global g) = \<sigma> (Global g)"
proof (induction xs arbitrary: \<sigma>)
  case Nil
  show ?case by simp
next
  case (Cons i xs)
  have "fst (exec t i \<sigma>) (Global g) = \<sigma> (Global g)"
    using exec_private_global[of t i \<sigma> g] Cons.prems by simp
  then show ?case
    unfolding run_alone_Cons[of t i] using Cons.IH[of "fst (exec t i \<sigma>)"] Cons.prems by simp
qed

lemma run_alone_observer: "ob \<in> set (snd (run_alone t xs \<sigma>)) \<Longrightarrow> fst ob = t"
proof (induction xs arbitrary: \<sigma>)
  case Nil
  then show ?case by simp
next
  case (Cons i xs)
  then show ?case
    unfolding run_alone_Cons[of t i] using exec_observer[of ob t i \<sigma>] by auto
qed

text \<open>Every step of every interleaving keeps the configuration consistent with the start.\<close>

lemma consistent_start: "consistent \<sigma>0 pool0 (\<sigma>0, pool0, [])"
proof -
  have "\<forall>t < length pool0. pool0 ! t = [] @ pool0 ! t
          \<and> (\<forall>x. \<sigma>0 (Local t x) = fst (run_alone t [] \<sigma>0) (Local t x))
          \<and> filter (\<lambda>ob. fst ob = t) [] = snd (run_alone t [] \<sigma>0)"
    by simp
  then have "\<forall>t < length pool0. \<exists>past. pool0 ! t = past @ pool0 ! t
          \<and> (\<forall>x. \<sigma>0 (Local t x) = fst (run_alone t past \<sigma>0) (Local t x))
          \<and> filter (\<lambda>ob. fst ob = t) [] = snd (run_alone t past \<sigma>0)"
    by blast
  then show ?thesis by (simp add: consistent_def)
qed

lemma consistent_step:
  assumes wf: "\<forall>t < length pool0. \<forall>i \<in> set (pool0 ! t). confined t i"
    and c: "consistent \<sigma>0 pool0 cfg"
  shows "consistent \<sigma>0 pool0 (sched_step t cfg)"
proof -
  obtain \<sigma> pool obs where cfg: "cfg = (\<sigma>, pool, obs)" by (cases cfg)
  from c have len: "length pool = length pool0"
    and glob: "\<forall>g. \<sigma> (Global g) = \<sigma>0 (Global g)"
    and bound: "\<forall>ob \<in> set obs. fst ob < length pool0"
    and thr: "\<forall>t < length pool0. \<exists>past.
            pool0 ! t = past @ pool ! t
          \<and> (\<forall>x. \<sigma> (Local t x) = fst (run_alone t past \<sigma>0) (Local t x))
          \<and> filter (\<lambda>ob. fst ob = t) obs = snd (run_alone t past \<sigma>0)"
    by (simp_all add: consistent_def cfg)
  show ?thesis
  proof (cases "t < length pool")
    case False
    then show ?thesis using c by (simp add: cfg)
  next
    case True
    show ?thesis
    proof (cases "pool ! t")
      case Nil
      then show ?thesis using c True by (simp add: cfg)
    next
      case (Cons i rest)
      have t0: "t < length pool0" using True len by simp
      from thr t0 obtain past where
        p1: "pool0 ! t = past @ i # rest"
        and p2: "\<forall>x. \<sigma> (Local t x) = fst (run_alone t past \<sigma>0) (Local t x)"
        and p3: "filter (\<lambda>ob. fst ob = t) obs = snd (run_alone t past \<sigma>0)"
        using Cons by auto
      have ci: "confined t i" using wf t0 p1 by simp
      have cp: "\<forall>j \<in> set past. confined t j" using wf t0 p1 by simp
      let ?\<sigma>p = "fst (run_alone t past \<sigma>0)"
      let ?\<sigma>' = "fst (exec t i \<sigma>)"
      let ?new = "snd (exec t i \<sigma>)"
      have gp: "\<forall>g. \<sigma> (Global g) = ?\<sigma>p (Global g)"
        using glob run_alone_global[OF cp, of \<sigma>0] by simp
      note v = exec_private_view[OF ci gp p2]
      have step: "sched_step t cfg = (?\<sigma>', pool[t := rest], obs @ ?new)"
        using True Cons by (simp add: cfg split: prod.splits)
      have newt: "\<forall>ob \<in> set ?new. fst ob = t" using exec_observer by blast
      have g': "\<forall>g. ?\<sigma>' (Global g) = \<sigma>0 (Global g)"
        using exec_private_global[OF ci, of \<sigma>] glob by simp
      have b': "\<forall>ob \<in> set (obs @ ?new). fst ob < length pool0"
        using bound newt t0 by auto
      have th': "\<forall>t' < length pool0. \<exists>past'.
            pool0 ! t' = past' @ pool[t := rest] ! t'
          \<and> (\<forall>x. ?\<sigma>' (Local t' x) = fst (run_alone t' past' \<sigma>0) (Local t' x))
          \<and> filter (\<lambda>ob. fst ob = t') (obs @ ?new) = snd (run_alone t' past' \<sigma>0)"
      proof (intro allI impI)
        fix t' assume t': "t' < length pool0"
        show "\<exists>past'.
            pool0 ! t' = past' @ pool[t := rest] ! t'
          \<and> (\<forall>x. ?\<sigma>' (Local t' x) = fst (run_alone t' past' \<sigma>0) (Local t' x))
          \<and> filter (\<lambda>ob. fst ob = t') (obs @ ?new) = snd (run_alone t' past' \<sigma>0)"
        proof (cases "t' = t")
          case True
          have a: "pool0 ! t = (past @ [i]) @ pool[t := rest] ! t"
            using p1 \<open>t < length pool\<close> by simp
          have r: "run_alone t (past @ [i]) \<sigma>0 =
                     (fst (exec t i ?\<sigma>p), snd (run_alone t past \<sigma>0) @ snd (exec t i ?\<sigma>p))"
            by (simp add: run_alone_append run_alone_Cons)
          have b: "\<forall>x. ?\<sigma>' (Local t x) = fst (run_alone t (past @ [i]) \<sigma>0) (Local t x)"
            using v by (simp add: r)
          have "filter (\<lambda>ob. fst ob = t) ?new = ?new" using newt by (simp add: filter_id_conv)
          then have d: "filter (\<lambda>ob. fst ob = t) (obs @ ?new) = snd (run_alone t (past @ [i]) \<sigma>0)"
            using p3 v by (simp add: r)
          show ?thesis unfolding True using a b d by blast
        next
          case False
          from thr t' obtain past' where
            q1: "pool0 ! t' = past' @ pool ! t'"
            and q2: "\<forall>x. \<sigma> (Local t' x) = fst (run_alone t' past' \<sigma>0) (Local t' x)"
            and q3: "filter (\<lambda>ob. fst ob = t') obs = snd (run_alone t' past' \<sigma>0)"
            by blast
          have a: "pool0 ! t' = past' @ pool[t := rest] ! t'" using q1 False by simp
          have b: "\<forall>x. ?\<sigma>' (Local t' x) = fst (run_alone t' past' \<sigma>0) (Local t' x)"
            using q2 exec_private_other[OF ci False, of \<sigma>] by simp
          have "filter (\<lambda>ob. fst ob = t') ?new = []" using newt False by (simp add: filter_empty_conv)
          then have d: "filter (\<lambda>ob. fst ob = t') (obs @ ?new) = snd (run_alone t' past' \<sigma>0)"
            using q3 by simp
          show ?thesis using a b d by blast
        qed
      qed
      show ?thesis
        unfolding step using len g' b' th' by (simp add: consistent_def)
    qed
  qed
qed

lemma consistent_run:
  assumes "\<forall>t < length pool0. \<forall>i \<in> set (pool0 ! t). confined t i"
    and "consistent \<sigma>0 pool0 cfg"
  shows "consistent \<sigma>0 pool0 (run_schedule sched cfg)"
  using assms(2)
proof (induction sched arbitrary: cfg)
  case Nil
  then show ?case by simp
next
  case (Cons t ts)
  show ?case using Cons.IH[OF consistent_step[OF assms(1) Cons.prems, of t]] by simp
qed

text \<open>The code of the handlers is confined, and reports the expected value when alone.\<close>

lemma handler_code_confined: "i \<in> set (handler_code t p u) \<Longrightarrow> confined t i"
  by (cases p) (auto simp: jsonError_code_def setInternalMessage_code_def)

lemma goroutines_confined:
  "\<forall>t < length (goroutines rs). \<forall>i \<in> set (goroutines rs ! t). confined t i"
  by (simp add: goroutines_def handler_code_confined)

lemma handler_code_alone:
  "snd (run_alone t (handler_code t p u) (store_of c)) = map (Pair t) (expected c p u)"
  by (cases p)
     (simp_all add: jsonError_code_def setInternalMessage_code_def store_of_def
        setInternalMessage_def)

text \<open>
  A pointer receiver would assign to the shared variable (the first revision of the file
  declares \<^verbatim>\<open>setRaw\<close> with one): such an instruction is not confined to its goroutine.
\<close>

lemma pointer_receiver_writes_shared:
  "fst (exec t (SetInternalMessage (Global g) m) (store_of c)) (Global g) =
     Some ((entry g c)\<lparr>InternalMessage := m\<rparr>)
   \<and> \<not> confined t (SetInternalMessage (Global g) m)"
  by (simp add: store_of_def)

text \<open>What is reported under an interleaving is reported by the goroutine alone.\<close>

lemma reports_of_run:
  assumes "consistent \<sigma>0 pool0 cfg" and "(t, v) \<in> set (reports cfg)"
  shows "t < length pool0 \<and> (t, v) \<in> set (snd (run_alone t (pool0 ! t) \<sigma>0))"
proof -
  obtain \<sigma> pool obs where cfg: "cfg = (\<sigma>, pool, obs)" by (cases cfg)
  have m: "(t, v) \<in> set obs" using assms(2) by (simp add: cfg reports_def)
  from assms(1) have bound: "\<forall>ob \<in> set obs. fst ob < length pool0"
    and thr: "\<forall>t < length pool0. \<exists>past.
            pool0 ! t = past @ pool ! t
          \<and> (\<forall>x. \<sigma> (Local t x) = fst (run_alone t past \<sigma>0) (Local t x))
          \<and> filter (\<lambda>ob. fst ob = t) obs = snd (run_alone t past \<sigma>0)"
    by (simp_all add: consistent_def cfg)
  have t: "t < length pool0" using bound m by fastforce
  from thr t obtain past where p1: "pool0 ! t = past @ pool ! t"
    and p3: "filter (\<lambda>ob. fst ob = t) obs = snd (run_alone t past \<sigma>0)" by blast
  have "(t, v) \<in> set (filter (\<lambda>ob. fst ob = t) obs)" using m by simp
  then have "(t, v) \<in> set (snd (run_alone t past \<sigma>0))" using p3 by simp
  then have "(t, v) \<in> set (snd (run_alone t (pool0 ! t) \<sigma>0))"
    by (simp add: p1 run_alone_append)
  then show ?thesis using t by simp
qed

lemma reports_when_finished:
  assumes "consistent \<sigma>0 pool0 cfg" and "t < length pool0" and "remaining cfg ! t = []"
  shows "filter (\<lambda>ob. fst ob = t) (reports cfg) = snd (run_alone t (pool0 ! t) \<sigma>0)"
proof -
  obtain \<sigma> pool obs where cfg: "cfg = (\<sigma>, pool, obs)" by (cases cfg)
  from assms(1) have thr: "\<forall>t < length pool0. \<exists>past.
            pool0 ! t = past @ pool ! t
          \<and> (\<forall>x. \<sigma> (Local t x) = fst (run_alone t past \<sigma>0) (Local t x))
          \<and> filter (\<lambda>ob. fst ob = t) obs = snd (run_alone t past \<sigma>0)"
    by (simp add: consistent_def cfg)
  from thr assms(2) obtain past where p1: "pool0 ! t = past @ pool ! t"
    and p3: "filter (\<lambda>ob. fst ob = t) obs = snd (run_alone t past \<sigma>0)" by blast
  have "pool ! t = []" using assms(3) by (simp add: cfg remaining_def)
  then show ?thesis using p1 p3 by (simp add: cfg reports_def)
qed

lemma expected_core:
  "v \<in> set (expected c p u) \<Longrightarrow>
   Id' v = u \<and> (\<exists>g. Status v = Status (entry g c) \<and> Code v = Code (entry g c)
                   \<and> Message v = Message (entry g c))"
proof (cases p)
  case Served
  assume "v \<in> set (expected c p u)"
  then show ?thesis using Served by simp
next
  case (Failed g)
  assume "v \<in> set (expected c p u)"
  then have "v = (entry g c)\<lparr>Id' := u\<rparr>" using Failed by simp
  then show ?thesis by auto
next
  case (StatusFailed e)
  assume "v \<in> set (expected c p u)"
  then have "v = (setInternalMessage (entry G_status_check c) e)\<lparr>Id' := u\<rparr>"
    using StatusFailed by simp
  then have "Id' v = u \<and> Status v = Status (entry G_status_check c)
          \<and> Code v = Code (entry G_status_check c) \<and> Message v = Message (entry G_status_check c)"
    by (simp add: setInternalMessage_def)
  then show ?thesis by blast
qed

text \<open>The handlers take one of these paths, and answer with what the code of the path reports.\<close>

lemma envelope_is_envelope_of: "envelope E res err u = envelope_of E res (err\<lparr>Id' := u\<rparr>)"
  by (simp add: envelope_def envelope_of_def)

lemma handle_takes_a_path:
  "\<exists>p. (if expected (errs w) p (uuid_NewV4 E (uuids w)) = []
        then error_ids (events_of (handle E r w)) = []
        else error_ids (events_of (handle E r w)) = [uuid_NewV4 E (uuids w)]
           \<and> map (envelope_of E new_response) (expected (errs w) p (uuid_NewV4 E (uuids w)))
               = [response_of (handle E r w)])"
proof (cases r)
  case GET_status
  show ?thesis
  proof (cases "Ping E")
    case None
    have "expected (errs w) Served (uuid_NewV4 E (uuids w)) = []
        \<and> error_ids (events_of (handle E r w)) = []"
      using handleStatus_world[of E new_response w] None by (simp add: handle_def GET_status)
    then show ?thesis by (intro exI[of _ Served]) simp
  next
    case (Some e)
    have n: "statusCode new_response = None" by (simp add: new_response_def)
    have "response_of (handle E r w) =
            envelope_of E new_response
              ((setInternalMessage (error_status_check (errs w)) e)\<lparr>Id' := uuid_NewV4 E (uuids w)\<rparr>)"
      using handleStatus_failure[OF n Some, of w]
      by (simp add: handle_def GET_status envelope_def envelope_of_def setInternalMessage_def
            marshal_detailedError_def)
    moreover have "error_ids (events_of (handle E r w)) = [uuid_NewV4 E (uuids w)]"
      using handleStatus_world[of E new_response w] Some by (simp add: handle_def GET_status)
    ultimately show ?thesis by (intro exI[of _ "StatusFailed e"]) simp
  qed
next
  case (GET_userID req)
  have n: "statusCode new_response = None" by (simp add: new_response_def)
  show ?thesis
  proof (cases "acquired (events_of (handleUserData E new_response req w))")
    case True
    have "error_ids (events_of (handle E r w)) = []"
      using handleUserData_world[of E new_response req w] True by (simp add: handle_def GET_userID)
    then show ?thesis by (intro exI[of _ Served]) simp
  next
    case False
    from handleUserData_failure[OF n False] obtain err where
      e: "err \<in> {error_invalid_parameters (errs w), error_no_view_permisson (errs w),
                error_running_query (errs w)}"
      and r: "response_of (handleUserData E new_response req w) =
                envelope E new_response err (uuid_NewV4 E (uuids w))" by blast
    from e obtain g where g: "entry g (errs w) = err"
      using entry.simps(6) entry.simps(2) entry.simps(4) by blast
    have "response_of (handle E r w) =
            envelope_of E new_response ((entry g (errs w))\<lparr>Id' := uuid_NewV4 E (uuids w)\<rparr>)"
      using r g by (simp add: handle_def GET_userID envelope_is_envelope_of)
    moreover have "error_ids (events_of (handle E r w)) = [uuid_NewV4 E (uuids w)]"
      using handleUserData_world[of E new_response req w] False by (simp add: handle_def GET_userID)
    ultimately show ?thesis by (intro exI[of _ "Failed g"]) simp
  qed
qed

text \<open>
  C10. Request handling never changes the package-level error variables, whatever the
  number of concurrent requests and however their steps interleave: in every configuration
  that any interleaving of any requests reaches from the catalog \<open>c\<close>, the shared variables
  still hold \<open>c\<close>. The identifier and the internal message are assigned to variables of the
  goroutine that assigns them, which are copies: what a request reports is the entry of
  \<open>c\<close> for its kind of error, with the \<^verbatim>\<open>Status\<close>, \<^verbatim>\<open>Code\<close> and \<^verbatim>\<open>Message\<close> of \<open>c\<close> and
  with its own identifier, and a request that has finished has reported exactly what it
  reports when running alone. Both handlers take one of these paths and answer with the
  envelope of the value that the code of the path reports.
\<close>

theorem catalog_shared_read_only:
  "(\<forall>g. final_store (run_schedule sched (store_of c, goroutines rs, [])) (Global g)
          = Some (entry g c))
   \<and> (\<forall>t v. (t, v) \<in> set (reports (run_schedule sched (store_of c, goroutines rs, []))) \<longrightarrow>
          t < length rs
        \<and> v \<in> set (expected c (fst (rs ! t)) (snd (rs ! t)))
        \<and> Id' v = snd (rs ! t)
        \<and> (\<exists>g. Status v = Status (entry g c) \<and> Code v = Code (entry g c)
                \<and> Message v = Message (entry g c)))
   \<and> (\<forall>t < length rs.
          remaining (run_schedule sched (store_of c, goroutines rs, [])) ! t = [] \<longrightarrow>
          filter (\<lambda>ob. fst ob = t) (reports (run_schedule sched (store_of c, goroutines rs, [])))
            = map (Pair t) (expected c (fst (rs ! t)) (snd (rs ! t))))
   \<and> (\<exists>p. if expected (errs w) p (uuid_NewV4 E (uuids w)) = []
           then error_ids (events_of (handle E r w)) = []
           else error_ids (events_of (handle E r w)) = [uuid_NewV4 E (uuids w)]
              \<and> map (envelope_of E new_response) (expected (errs w) p (uuid_NewV4 E (uuids w)))
                  = [response_of (handle E r w)])"
proof -
  let ?cfg = "run_schedule sched (store_of c, goroutines rs, [])"
  have len: "length (goroutines rs) = length rs" by (simp add: goroutines_def)
  have code: "\<forall>t < length rs. goroutines rs ! t = handler_code t (fst (rs ! t)) (snd (rs ! t))"
    by (simp add: goroutines_def)
  have inv: "consistent (store_of c) (goroutines rs) ?cfg"
    using goroutines_confined consistent_start by (rule consistent_run)
  have a: "\<forall>g. final_store ?cfg (Global g) = Some (entry g c)"
  proof
    fix g
    obtain \<sigma> pool obs where cfg: "?cfg = (\<sigma>, pool, obs)" by (cases ?cfg)
    have "\<sigma> (Global g) = store_of c (Global g)" using inv by (simp add: consistent_def cfg)
    then show "final_store ?cfg (Global g) = Some (entry g c)"
      by (simp add: cfg final_store_def store_of_def)
  qed
  have b: "\<forall>t v. (t, v) \<in> set (reports ?cfg) \<longrightarrow>
          t < length rs
        \<and> v \<in> set (expected c (fst (rs ! t)) (snd (rs ! t)))
        \<and> Id' v = snd (rs ! t)
        \<and> (\<exists>g. Status v = Status (entry g c) \<and> Code v = Code (entry g c)
                \<and> Message v = Message (entry g c))"
  proof (intro allI impI)
    fix t v assume m: "(t, v) \<in> set (reports ?cfg)"
    from reports_of_run[OF inv m] have t: "t < length rs"
      and r: "(t, v) \<in> set (snd (run_alone t (goroutines rs ! t) (store_of c)))"
      using len by simp_all
    have e: "v \<in> set (expected c (fst (rs ! t)) (snd (rs ! t)))"
      using r code t by (auto simp: handler_code_alone)
    show "t < length rs
        \<and> v \<in> set (expected c (fst (rs ! t)) (snd (rs ! t)))
        \<and> Id' v = snd (rs ! t)
        \<and> (\<exists>g. Status v = Status (entry g c) \<and> Code v = Code (entry g c)
                \<and> Message v = Message (entry g c))"
      using t e expected_core[OF e] by blast
  qed
  have d: "\<forall>t < length rs. remaining ?cfg ! t = [] \<longrightarrow>
          filter (\<lambda>ob. fst ob = t) (reports ?cfg)
            = map (Pair t) (expected c (fst (rs ! t)) (snd (rs ! t)))"
  proof (intro allI impI)
    fix t assume t: "t < length rs" and f: "remaining ?cfg ! t = []"
    have "filter (\<lambda>ob. fst ob = t) (reports ?cfg) =
            snd (run_alone t (goroutines rs ! t) (store_of c))"
      using inv t f len by (intro reports_when_finished) simp_all
    then show "filter (\<lambda>ob. fst ob = t) (reports ?cfg)
            = map (Pair t) (expected c (fst (rs ! t)) (snd (rs ! t)))"
      using code t by (simp add: handler_code_alone)
  qed
  show ?thesis using a b d handle_takes_a_path[of w E r] by blast
qed

text \<open>
  The four requests under the interleaving: the second denied request, the finished status
  check, and the shared variable it read.
\<close>

theorem catalog_shared_read_only_witness:
  "(3, \<lparr>Status = 403, Id' = ''uuu'', Code = ''data_cant_view'',
        Message = ''user is not authorized to view data'', InternalMessage = ''''\<rparr>)
     \<in> set (reports (run_schedule ex_schedule
                (store_of initial_catalog, goroutines ex_requests, [])))
   \<and> Code \<lparr>Status = 403, Id' = ''uuu'', Code = ''data_cant_view'',
        Message = ''user is not authorized to view data'', InternalMessage = ''''\<rparr>
       = Code (error_no_view_permisson initial_catalog)
   \<and> remaining (run_schedule ex_schedule
        (store_of initial_catalog, goroutines ex_requests, [])) ! 0 = []
   \<and> filter (\<lambda>ob. fst ob = 0) (reports (run_schedule ex_schedule
        (store_of initial_catalog, goroutines ex_requests, [])))
       = [(0, \<lparr>Status = 500, Id' = ''u'', Code = ''data_status_check'',
               Message = ''checking of the status endpoint showed an error'',
               InternalMessage = ''no reachable servers''\<rparr>)]
   \<and> final_store (run_schedule ex_schedule
        (store_of initial_catalog, goroutines ex_requests, [])) (Global G_status_check)
       = Some (error_status_check initial_catalog)"
proof -
  let ?cfg = "run_schedule ex_schedule (store_of initial_catalog, goroutines ex_requests, [])"
  let ?v = "\<lparr>Status = 403, Id' = ''uuu'', Code = ''data_cant_view'',
        Message = ''user is not authorized to view data'', InternalMessage = ''''\<rparr>"
  note inst = catalog_shared_read_only[of ex_schedule initial_catalog ex_requests]
  have m: "(3, ?v) \<in> set (reports ?cfg)" by code_simp
  have f: "remaining ?cfg ! 0 = []" by code_simp
  have l: "(0::nat) < length ex_requests" by (simp add: ex_requests_def)
  have x0: "expected initial_catalog (fst (ex_requests ! 0)) (snd (ex_requests ! 0)) =
             [\<lparr>Status = 500, Id' = ''u'', Code = ''data_status_check'',
               Message = ''checking of the status endpoint showed an error'',
               InternalMessage = ''no reachable servers''\<rparr>]"
    by (simp add: ex_requests_def initial_catalog_def mkError_def setInternalMessage_def
          http_StatusInternalServerError_def)
  have x3: "expected initial_catalog (fst (ex_requests ! 3)) (snd (ex_requests ! 3)) =
             [(error_no_view_permisson initial_catalog)\<lparr>Id' := ''uuu''\<rparr>]"
    by (simp add: ex_requests_def)
  from inst have c1: "final_store ?cfg (Global G_status_check)
                       = Some (entry G_status_check initial_catalog)" by blast
  from inst m have c2: "?v \<in> set (expected initial_catalog (fst (ex_requests ! 3))
                                   (snd (ex_requests ! 3)))" by blast
  from inst l f have c3: "filter (\<lambda>ob. fst ob = 0) (reports ?cfg)
            = map (Pair 0) (expected initial_catalog (fst (ex_requests ! 0))
                              (snd (ex_requests ! 0)))" by blast
  have k: "Code ?v = Code (error_no_view_permisson initial_catalog)"
    using c2 by (simp add: x3)
  show ?thesis using m k f c3 c1 by (simp add: x0)
qed

end
